theory Spec2Isabelle
  imports Complex_Main "HOL-Library.Sublist"
begin

section \<open>JavaScript values shared by the services\<close>

text \<open>
  A \<^typ>\<open>string\<close> stands for a JavaScript string; a \<^typ>\<open>char\<close> is one UTF-16 code unit
  below \<open>0x100\<close>.  \<open>jsvalue\<close> is the part of the JavaScript value space the handlers put
  into JSON bodies and error details; an object is the list of its own properties in
  insertion order.
\<close>

datatype jsvalue =
    JUndefined
  | JNull
  | JBool bool
  | JNum int
  | JStr string
  | JArr "jsvalue list"
  | JObj "(string \<times> jsvalue) list"


text \<open>
  Reading \<^verbatim>\<open>obj[key]\<close> on an object literal finds the literal's own properties first and
  then the properties every object inherits from \<^verbatim>\<open>Object.prototype\<close>; only a key that is
  neither gives \<^verbatim>\<open>undefined\<close>.
\<close>

definition object_prototype_properties :: "string list" where
  "object_prototype_properties =
     [''constructor'', ''__defineGetter__'', ''__defineSetter__'', ''hasOwnProperty'',
      ''__lookupGetter__'', ''__lookupSetter__'', ''isPrototypeOf'', ''propertyIsEnumerable'',
      ''toString'', ''valueOf'', ''__proto__'', ''toLocaleString'']"

datatype 'a property = Own 'a | Inherited | Missing

definition get_property :: "(string \<times> 'a) list \<Rightarrow> string \<Rightarrow> 'a property" where
  "get_property obj key =
     (case map_of obj key of
        Some v \<Rightarrow> Own v
      | None \<Rightarrow> if key \<in> set object_prototype_properties then Inherited else Missing)"

section \<open>Application errors (\<^verbatim>\<open>middleware/errorHandler\<close>)\<close>

text \<open>
  \<^verbatim>\<open>interface AppError extends Error\<close>: the name and message of \<^verbatim>\<open>Error\<close> and the optional
  fields the handler looks at.  \<open>err_class\<close> records what the handler's \<^verbatim>\<open>instanceof\<close> tests
  and its \<^verbatim>\<open>'body' in error\<close> test see.  The stack text, which the engine attaches when
  an error object is created, is not a field here: the handler takes it as an argument.
\<close>

datatype error_class =
    PrismaClientKnownRequestError jsvalue
  | PrismaClientValidationError
  | SyntaxError bool
  | OtherError

record app_error =
  name :: string
  message :: string
  statusCode :: "int option"
  code :: "string option"
  details :: jsvalue
  err_class :: error_class

text \<open>
  \<^verbatim>\<open>class CustomError\<close> and its subclasses.  None of them sets \<^verbatim>\<open>this.name\<close>, so the name
  is the inherited \<open>Error\<close>.
\<close>

definition CustomError :: "string \<Rightarrow> int \<Rightarrow> string option \<Rightarrow> jsvalue \<Rightarrow> app_error" where
  "CustomError msg status c d =
     \<lparr>name = ''Error'', message = msg, statusCode = Some status, code = c,
      details = d, err_class = OtherError\<rparr>"



definition AuthorizationError :: "string \<Rightarrow> app_error" where
  "AuthorizationError msg = CustomError msg 403 (Some ''AUTHORIZATION_ERROR'') JUndefined"


definition RateLimitError :: "string \<Rightarrow> app_error" where
  "RateLimitError msg = CustomError msg 429 (Some ''RATE_LIMIT_ERROR'') JUndefined"

definition ExternalServiceError :: "string \<Rightarrow> string \<Rightarrow> jsvalue \<Rightarrow> app_error" where
  "ExternalServiceError service msg d =
     CustomError (service @ '' service error: '' @ msg) 502 (Some ''EXTERNAL_SERVICE_ERROR'') d"

section \<open>Text functions used by the generation client\<close>

text \<open>
  White space as \<^verbatim>\<open>\s\<close> and \<^verbatim>\<open>trim()\<close> see it, among the code units below \<open>0x100\<close>: tab,
  line feed, vertical tab, form feed, carriage return, space and no-break space.
\<close>

definition is_space :: "char \<Rightarrow> bool" where
  "is_space c \<longleftrightarrow>
     c \<in> {CHR 0x09, CHR 0x0A, CHR 0x0B, CHR 0x0C, CHR 0x0D, CHR '' '', CHR 0xA0}"

definition is_digit :: "char \<Rightarrow> bool" where
  "is_digit c \<longleftrightarrow> c \<in> set ''0123456789''"

definition trim :: "string \<Rightarrow> string" where
  "trim s = rev (dropWhile is_space (rev (dropWhile is_space s)))"

text \<open>\<^verbatim>\<open>s.split(',')\<close>: always at least one piece.\<close>

fun split_on :: "char \<Rightarrow> string \<Rightarrow> string list" where
  "split_on sep [] = [[]]"
| "split_on sep (c # cs) =
     (if c = sep then [] # split_on sep cs
      else (case split_on sep cs of
              [] \<Rightarrow> [[c]]
            | w # ws \<Rightarrow> (c # w) # ws))"

text \<open>
  \<^verbatim>\<open>s.split(/\s+/).length\<close>: the pieces are separated by the maximal runs of white space,
  so there is one piece more than there are runs.
\<close>

fun count_runs :: "bool \<Rightarrow> string \<Rightarrow> nat" where
  "count_runs in_run [] = 0"
| "count_runs in_run (c # cs) =
     (if is_space c then (if in_run then 0 else 1) + count_runs True cs
      else count_runs False cs)"

definition split_ws_length :: "string \<Rightarrow> nat" where
  "split_ws_length s = 1 + count_runs False s"

text \<open>
  \<^verbatim>\<open>parseInt\<close> on a string of decimal digits: the exact value (JavaScript rounds a value
  above \<open>2^53\<close> to a double).
\<close>

definition digit_value :: "char \<Rightarrow> nat" where
  "digit_value c = of_char c - 48"

definition parseInt :: "string \<Rightarrow> nat" where
  "parseInt ds = foldl (\<lambda>n c. 10 * n + digit_value c) 0 ds"

subsection \<open>The regular expressions of \<^verbatim>\<open>parseResponse\<close>\<close>

text \<open>
  \<^verbatim>\<open>content.match(re)\<close> without the \<^verbatim>\<open>g\<close> flag returns the leftmost match: the pattern is
  tried at the start of the text, then one code unit further on, and so on up to the
  end of the text.
\<close>

fun first_match :: "(string \<Rightarrow> 'a option) \<Rightarrow> string \<Rightarrow> 'a option" where
  "first_match m [] = m []"
| "first_match m (c # cs) =
     (case m (c # cs) of
        Some x \<Rightarrow> Some x
      | None \<Rightarrow> first_match m cs)"

text \<open>
  \<^verbatim>\<open>(.*?)(?=\n\*\*|$)\<close> with the \<^verbatim>\<open>s\<close> flag: the shortest text after which either a line
  feed and two asterisks follow or the input ends.
\<close>

fun lazy_capture :: "string \<Rightarrow> string" where
  "lazy_capture [] = []"
| "lazy_capture (c # cs) =
     (if prefix [CHR 0x0A, CHR ''*'', CHR ''*''] (c # cs) then [] else c # lazy_capture cs)"

text \<open>
  \<^verbatim>\<open>LABEL\s*\n(.*?)(?=\n\*\*|$)\<close> tried at the start of \<open>s\<close>.  The greedy \<^verbatim>\<open>\s*\<close> takes the whole
  run of white space after the label and gives back code units until a line feed can
  follow, so the capture starts after the last line feed of that run; without a line feed
  in the run there is no match here.  The capture group is the result.
\<close>

definition section_at :: "string \<Rightarrow> string \<Rightarrow> string option" where
  "section_at label s =
     (if prefix label s then
        (let r = drop (length label) s;
             run = takeWhile is_space r
         in if CHR 0x0A \<in> set run then
              Some (lazy_capture
                      (rev (takeWhile (\<lambda>c. c \<noteq> CHR 0x0A) (rev run)) @ dropWhile is_space r))
            else None)
      else None)"

definition match_section :: "string \<Rightarrow> string \<Rightarrow> string option" where
  "match_section label content = first_match (section_at label) content"

text \<open>\<^verbatim>\<open>/\*\*SEO Score:\*\*\s*(\d+)/\<close> tried at the start of \<open>s\<close>.\<close>

definition seo_at :: "string \<Rightarrow> string option" where
  "seo_at s =
     (if prefix ''**SEO Score:**'' s then
        (let ds = takeWhile is_digit (dropWhile is_space (drop (length ''**SEO Score:**'') s))
         in if ds = [] then None else Some ds)
      else None)"

definition match_seo :: "string \<Rightarrow> string option" where
  "match_seo content = first_match seo_at content"

section \<open>Generation client (\<^verbatim>\<open>OpenAIService\<close>)\<close>

datatype tone = Professional | Casual | Friendly | Formal | Playful | Luxury

record generation_options =
  opt_tone :: "tone option"
  opt_language :: "string option"
  opt_keywords :: "string list option"
  opt_wordCount :: "int option"
  opt_seoOptimization :: "bool option"
  opt_includeFeatures :: "bool option"
  opt_includeBenefits :: "bool option"
  opt_customPrompt :: "string option"

record generated_description =
  content :: string
  wordCount :: nat
  seoScore :: "nat option"
  keyword_list :: "string list"
  metaDescription :: "string option"
  titleTag :: "string option"

text \<open>A product as the batch receives it; \<^verbatim>\<open>generateDescription\<close> does not read the id.\<close>

record product =
  product_id :: string
  title :: string
  existingDescription :: "string option"
  vendor :: "string option"
  productType :: "string option"
  tags :: "string list option"
  images :: "string list option"

text \<open>
  \<^verbatim>\<open>parseResponse(content, productData, options)\<close>.  The response text, \<^verbatim>\<open>content\<close> in the
  source, is \<open>text\<close> here, and the local \<^verbatim>\<open>keywords\<close> is \<open>kws\<close>.
\<close>

definition parseResponse :: "string \<Rightarrow> product \<Rightarrow> generation_options \<Rightarrow> generated_description" where
  "parseResponse text productData options =
     (let descriptionMatch = match_section ''**Product Description:**'' text;
          description = (case descriptionMatch of Some g \<Rightarrow> trim g | None \<Rightarrow> text);
          keywordsMatch = match_section ''**Keywords Used:**'' text;
          kws = (case keywordsMatch of
                   Some g \<Rightarrow> map trim (split_on CHR '','' g)
                 | None \<Rightarrow> (case opt_keywords options of Some ks \<Rightarrow> ks | None \<Rightarrow> []));
          seoMatch = match_seo text;
          metaMatch = match_section ''**Meta Description:**'' text;
          titleMatch = match_section ''**Title Tag:**'' text
      in \<lparr>content = description,
          wordCount = split_ws_length description,
          seoScore = map_option parseInt seoMatch,
          keyword_list = kws,
          metaDescription = map_option trim metaMatch,
          titleTag = map_option trim titleMatch\<rparr>)"

subsection \<open>One completion call\<close>

text \<open>
  The completion service is outside the repository.  Awaiting
  \<^verbatim>\<open>client.chat.completions.create\<close> either throws an error object, of which the code
  reads \<^verbatim>\<open>code\<close> and \<^verbatim>\<open>message\<close>, or resolves to a completion.  The prompt only
  influences what the service answers, and the answer is a parameter here.
\<close>

record js_error =
  error_code :: "string option"
  error_message :: string

record chat_message =
  message_content :: "string option"

record choice =
  choice_message :: "chat_message option"

record completion =
  choices :: "choice list"

datatype api_reply = Rejects js_error | Resolves completion

text \<open>\<^verbatim>\<open>completion.choices[0]?.message?.content?.trim()\<close>\<close>

definition completion_content :: "completion \<Rightarrow> string option" where
  "completion_content c =
     (case choices c of
        [] \<Rightarrow> None
      | ch # _ \<Rightarrow>
          (case choice_message ch of
             None \<Rightarrow> None
           | Some m \<Rightarrow> map_option trim (message_content m)))"

text \<open>The \<^verbatim>\<open>try\<close> block: \<open>Inl\<close> is what reaches the \<^verbatim>\<open>catch\<close>.\<close>

definition generate_try ::
  "product \<Rightarrow> generation_options \<Rightarrow> api_reply \<Rightarrow> js_error + generated_description" where
  "generate_try productData options reply =
     (case reply of
        Rejects e \<Rightarrow> Inl e
      | Resolves c \<Rightarrow>
          (case completion_content c of
             None \<Rightarrow> Inl \<lparr>error_code = None, error_message = ''No content generated from OpenAI''\<rparr>
           | Some text \<Rightarrow>
               if text = [] then
                 Inl \<lparr>error_code = None, error_message = ''No content generated from OpenAI''\<rparr>
               else Inr (parseResponse text productData options)))"

text \<open>The caught error object, as it is passed on in \<^verbatim>\<open>details\<close>.\<close>

definition error_object :: "js_error \<Rightarrow> jsvalue" where
  "error_object e =
     JObj [(''code'', (case error_code e of Some c \<Rightarrow> JStr c | None \<Rightarrow> JUndefined)),
           (''message'', JStr (error_message e))]"

text \<open>The \<^verbatim>\<open>catch\<close> block: every caught error is rethrown as an \<^verbatim>\<open>ExternalServiceError\<close>.\<close>

definition generate_catch :: "product \<Rightarrow> js_error \<Rightarrow> app_error" where
  "generate_catch productData e =
     (if error_code e = Some ''insufficient_quota'' then
        ExternalServiceError ''OpenAI'' ''API quota exceeded'' (error_object e)
      else if error_code e = Some ''rate_limit_exceeded'' then
        ExternalServiceError ''OpenAI'' ''Rate limit exceeded'' (error_object e)
      else
        ExternalServiceError ''OpenAI'' ''Failed to generate description''
          (JObj [(''error'', JStr (error_message e)),
                 (''productTitle'', JStr (title productData))]))"

text \<open>
  \<^verbatim>\<open>generateDescription(productData, options)\<close>, given the reply to its one completion
  call: \<open>Inl\<close> is the error the returned promise rejects with.
\<close>

definition generateDescription ::
  "product \<Rightarrow> generation_options \<Rightarrow> api_reply \<Rightarrow> app_error + generated_description" where
  "generateDescription productData options reply =
     (case generate_try productData options reply of
        Inr result \<Rightarrow> Inr result
      | Inl e \<Rightarrow> Inl (generate_catch productData e))"

section \<open>Batch orchestrator (\<^verbatim>\<open>batchGenerateDescriptions\<close>)\<close>

record result_entry =
  productId :: string
  success :: bool
  description :: "generated_description option"
  error :: "string option"

record batch_result =
  total_items :: nat
  successful :: nat
  failed :: nat
  results :: "result_entry list"

text \<open>\<^verbatim>\<open>xs.slice(a, b)\<close> for indices \<open>0 \<le> a \<le> b\<close>.\<close>

definition slice :: "'a list \<Rightarrow> nat \<Rightarrow> nat \<Rightarrow> 'a list" where
  "slice xs a b = take (b - a) (drop a xs)"

definition batchSize :: nat where
  "batchSize = 5"

text \<open>
  What the callback of \<^verbatim>\<open>batch.map\<close> returns for one product, given the reply to the
  completion call it made: the \<^verbatim>\<open>try\<close> branch or the \<^verbatim>\<open>catch\<close> branch.
\<close>

definition attempt :: "product \<Rightarrow> generation_options \<Rightarrow> api_reply \<Rightarrow> result_entry" where
  "attempt p options reply =
     (case generateDescription p options reply of
        Inr d \<Rightarrow> \<lparr>productId = product_id p, success = True, description = Some d, error = None\<rparr>
      | Inl err \<Rightarrow>
          \<lparr>productId = product_id p, success = False, description = None,
           error = Some (message err)\<rparr>)"

text \<open>The counter the callback bumps before it returns its entry.\<close>

definition tally :: "result_entry \<Rightarrow> batch_result \<Rightarrow> batch_result" where
  "tally e r =
     (if success e then r\<lparr>successful := successful r + 1\<rparr> else r\<lparr>failed := failed r + 1\<rparr>)"

subsection \<open>Execution in steps\<close>

text \<open>
  The callbacks of one batch run interleaved on the event loop: each is suspended at
  its completion call and resumes when its own reply arrives, in any order.  A
  configuration is the state between two such events.  The completion calls are
  numbered in the order they are made; \<open>api k\<close> is the reply to call number \<open>k\<close>.
\<close>

datatype slot =
    InFlight product nat
  | Settled result_entry

fun is_settled :: "slot \<Rightarrow> bool" where
  "is_settled (Settled _) = True"
| "is_settled (InFlight _ _) = False"

text \<open>The entries \<^verbatim>\<open>Promise.all\<close> resolves to, in the order of the promises.\<close>

fun settled :: "slot list \<Rightarrow> result_entry list" where
  "settled [] = []"
| "settled (Settled e # ss) = e # settled ss"
| "settled (InFlight _ _ # ss) = settled ss"

datatype program_point = LoopHead | Awaiting | Returned

record config =
  point :: program_point
  loop_index :: nat
  slots :: "slot list"
  calls :: nat
  result :: batch_result

definition initial :: "product list \<Rightarrow> config" where
  "initial products =
     \<lparr>point = LoopHead, loop_index = 0, slots = [], calls = 0,
      result = \<lparr>total_items = length products, successful = 0, failed = 0, results = []\<rparr>\<rparr>"

text \<open>
  \<open>start\<close>: the loop condition holds; the batch is sliced off and every callback runs up to
  its completion call.  \<open>settle\<close>: one pending call is answered, its callback bumps a
  counter and its promise resolves.  \<open>barrier\<close>: all promises of the batch have resolved,
  \<^verbatim>\<open>Promise.all\<close> resumes the loop body, the entries are pushed and the index advances
  (the pause between batches changes no state).  \<open>return\<close>: the loop condition fails.
\<close>

inductive step ::
  "(nat \<Rightarrow> api_reply) \<Rightarrow> product list \<Rightarrow> generation_options \<Rightarrow> config \<Rightarrow> config \<Rightarrow> bool"
  for api :: "nat \<Rightarrow> api_reply" and products :: "product list" and options :: generation_options
where
  start:
    "\<lbrakk>point c = LoopHead; loop_index c < length products;
      batch = slice products (loop_index c) (loop_index c + batchSize);
      c' = c\<lparr>point := Awaiting,
              slots := map (\<lambda>(j, p). InFlight p (calls c + j)) (enumerate 0 batch),
              calls := calls c + length batch\<rparr>\<rbrakk>
     \<Longrightarrow> step api products options c c'"
| settle:
    "\<lbrakk>point c = Awaiting; k < length (slots c); slots c ! k = InFlight p n;
      e = attempt p options (api n);
      c' = c\<lparr>slots := (slots c)[k := Settled e], result := tally e (result c)\<rparr>\<rbrakk>
     \<Longrightarrow> step api products options c c'"
| barrier:
    "\<lbrakk>point c = Awaiting; list_all is_settled (slots c);
      c' = c\<lparr>point := LoopHead, loop_index := loop_index c + batchSize, slots := [],
              result := (result c)\<lparr>results := results (result c) @ settled (slots c)\<rparr>\<rparr>\<rbrakk>
     \<Longrightarrow> step api products options c c'"
| return:
    "\<lbrakk>point c = LoopHead; \<not> loop_index c < length products; c' = c\<lparr>point := Returned\<rparr>\<rbrakk>
     \<Longrightarrow> step api products options c c'"

code_pred step .

text \<open>The configurations a run of \<^verbatim>\<open>batchGenerateDescriptions(products, options)\<close> passes.\<close>

definition reachable ::
  "(nat \<Rightarrow> api_reply) \<Rightarrow> product list \<Rightarrow> generation_options \<Rightarrow> config \<Rightarrow> bool" where
  "reachable api products options c \<longleftrightarrow> (step api products options)\<^sup>*\<^sup>* (initial products) c"

subsection \<open>The value returned\<close>

text \<open>
  The loop as a function, one batch per call.  The counters of a batch are added in one
  go: the order in which its calls are answered does not show in the returned value.
\<close>

function batch_loop ::
  "(nat \<Rightarrow> api_reply) \<Rightarrow> product list \<Rightarrow> generation_options \<Rightarrow> nat \<Rightarrow> nat \<Rightarrow> batch_result
     \<Rightarrow> batch_result" where
  "batch_loop api products options i ncalls r =
     (if i < length products then
        (let batch = slice products i (i + batchSize);
             batchResults = map (\<lambda>(j, p). attempt p options (api (ncalls + j))) (enumerate 0 batch)
         in batch_loop api products options (i + batchSize) (ncalls + length batch)
              (r\<lparr>successful := successful r + length (filter success batchResults),
                 failed := failed r + length (filter (\<lambda>e. \<not> success e) batchResults),
                 results := results r @ batchResults\<rparr>))
      else r)"
  by pat_completeness auto
termination
  by (relation "measure (\<lambda>(api, products, options, i, ncalls, r). length products - i)")
     (auto simp: batchSize_def)

declare batch_loop.simps [simp del]

definition batchGenerateDescriptions ::
  "(nat \<Rightarrow> api_reply) \<Rightarrow> product list \<Rightarrow> generation_options \<Rightarrow> batch_result" where
  "batchGenerateDescriptions api products options =
     batch_loop api products options 0 0
       \<lparr>total_items = length products, successful = 0, failed = 0, results = []\<rparr>"

subsection \<open>What a run is expected to maintain\<close>

text \<open>The entry of the \<open>k\<close>-th product: it is attempted by call number \<open>k\<close>.\<close>

definition outcome ::
  "(nat \<Rightarrow> api_reply) \<Rightarrow> product list \<Rightarrow> generation_options \<Rightarrow> nat \<Rightarrow> result_entry" where
  "outcome api products options k = attempt (products ! k) options (api k)"

definition counters_ok :: "batch_result \<Rightarrow> result_entry list \<Rightarrow> bool" where
  "counters_ok r pending \<longleftrightarrow>
     successful r = length (filter success (results r @ pending)) \<and>
     failed r = length (filter (\<lambda>e. \<not> success e) (results r @ pending))"

definition batch_inv ::
  "(nat \<Rightarrow> api_reply) \<Rightarrow> product list \<Rightarrow> generation_options \<Rightarrow> config \<Rightarrow> bool" where
  "batch_inv api products options c \<longleftrightarrow>
     total_items (result c) = length products \<and>
     batchSize dvd loop_index c \<and>
     (case point c of
        LoopHead \<Rightarrow>
          slots c = [] \<and>
          calls c = min (loop_index c) (length products) \<and>
          results (result c) =
            map (outcome api products options) [0..<min (loop_index c) (length products)] \<and>
          counters_ok (result c) []
      | Awaiting \<Rightarrow>
          loop_index c < length products \<and>
          calls c = min (loop_index c + batchSize) (length products) \<and>
          length (slots c) = min (loop_index c + batchSize) (length products) - loop_index c \<and>
          (\<forall>j < length (slots c).
              slots c ! j = InFlight (products ! (loop_index c + j)) (loop_index c + j) \<or>
              slots c ! j = Settled (outcome api products options (loop_index c + j))) \<and>
          results (result c) = map (outcome api products options) [0..<loop_index c] \<and>
          counters_ok (result c) (settled (slots c))
      | Returned \<Rightarrow>
          calls c = length products \<and>
          results (result c) = map (outcome api products options) [0..<length products] \<and>
          counters_ok (result c) [])"

text \<open>A bound on the number of steps a configuration still has before it.\<close>

definition steps_left :: "product list \<Rightarrow> config \<Rightarrow> nat" where
  "steps_left products c =
     (case point c of
        Returned \<Rightarrow> 0
      | LoopHead \<Rightarrow> 1 + 8 * (length products - loop_index c)
      | Awaiting \<Rightarrow>
          2 + length (filter (\<lambda>s. \<not> is_settled s) (slots c))
            + 8 * (length products - (loop_index c + batchSize)))"

section \<open>Cost estimate (\<^verbatim>\<open>calculateCost\<close>)\<close>

text \<open>
  A JavaScript number is modelled as an exact rational or \<^verbatim>\<open>NaN\<close>: rounding to a double is
  left out, and the arithmetic of \<^verbatim>\<open>calculateCost\<close> cannot produce an infinity.
\<close>

datatype jsnumber = Num rat | NaN

record model_pricing =
  input_price :: rat
  output_price :: rat

definition pricing :: "(string \<times> model_pricing) list" where
  "pricing =
     [(''gpt-4'', \<lparr>input_price = 3 / 100, output_price = 6 / 100\<rparr>),
      (''gpt-4-turbo'', \<lparr>input_price = 1 / 100, output_price = 3 / 100\<rparr>),
      (''gpt-3.5-turbo'', \<lparr>input_price = 1 / 1000, output_price = 2 / 1000\<rparr>)]"

text \<open>
  \<^verbatim>\<open>pricing[model] || pricing['gpt-4']\<close>.  An inherited property is a function (or
  \<^verbatim>\<open>Object.prototype\<close>), which is truthy, so no fallback happens; it has no \<^verbatim>\<open>input\<close> and no
  \<^verbatim>\<open>output\<close>.  \<open>None\<close> stands for such a value.
\<close>

definition modelPricing :: "string \<Rightarrow> model_pricing option" where
  "modelPricing model =
     (case get_property pricing model of
        Own p \<Rightarrow> Some p
      | Inherited \<Rightarrow> None
      | Missing \<Rightarrow>
          (case get_property pricing ''gpt-4'' of
             Own p \<Rightarrow> Some p
           | _ \<Rightarrow> None))"

text \<open>
  \<^verbatim>\<open>calculateCost(tokenCount, model)\<close>.  Multiplying by \<^verbatim>\<open>undefined\<close> gives \<^verbatim>\<open>NaN\<close>, and
  \<^verbatim>\<open>NaN\<close> stays \<^verbatim>\<open>NaN\<close> through the sum and the division.
\<close>

definition calculateCost :: "rat \<Rightarrow> string \<Rightarrow> jsnumber" where
  "calculateCost tokenCount model =
     (let inputTokens = \<lceil>tokenCount * (7 / 10)\<rceil>;
          outputTokens = \<lceil>tokenCount * (3 / 10)\<rceil>
      in case modelPricing model of
           Some p \<Rightarrow> Num ((of_int inputTokens * input_price p + of_int outputTokens * output_price p) / 1000)
         | None \<Rightarrow> NaN)"

section \<open>Authentication middleware: \<^verbatim>\<open>requireFeature\<close>\<close>

record auth_user =
  user_id :: string
  email :: string
  plan :: string
  subscriptionStatus :: string

datatype js_exception = TypeError string

text \<open>What a middleware does with a request: hand it on, answer it, or throw.\<close>

datatype mw_result =
    Next
  | Respond nat "(string \<times> jsvalue) list"
  | Throws js_exception

definition planFeatures :: "(string \<times> string list) list" where
  "planFeatures =
     [(''basic'', [''seoOptimization'', ''bulkGeneration'']),
      (''pro'', [''seoOptimization'', ''bulkGeneration'', ''customTone'', ''multiLanguage'']),
      (''enterprise'', [''seoOptimization'', ''bulkGeneration'', ''customTone'',
                        ''multiLanguage'', ''customTraining'', ''apiAccess''])]"

text \<open>
  \<^verbatim>\<open>planFeatures[req.user.plan] || []\<close>: an own entry is the plan's feature array, a missing
  key falls back to the empty array, and an inherited property (a function, or
  \<^verbatim>\<open>Object.prototype\<close> itself) is truthy, so it is kept although it is no array.
\<close>

definition userFeatures :: "string \<Rightarrow> string list option" where
  "userFeatures p =
     (case get_property planFeatures p of
        Own fs \<Rightarrow> Some fs
      | Missing \<Rightarrow> Some []
      | Inherited \<Rightarrow> None)"

definition requireFeature :: "string \<Rightarrow> auth_user option \<Rightarrow> mw_result" where
  "requireFeature feature user =
     (case user of
        None \<Rightarrow>
          Respond 401
            [(''error'', JStr ''Authentication required''), (''code'', JStr ''AUTH_REQUIRED'')]
      | Some u \<Rightarrow>
          (case userFeatures (plan u) of
             None \<Rightarrow> Throws (TypeError ''userFeatures.includes is not a function'')
           | Some fs \<Rightarrow>
               if feature \<notin> set fs then
                 Respond 403
                   [(''error'', JStr ''Feature not available''),
                    (''code'', JStr ''FEATURE_NOT_AVAILABLE''),
                    (''details'', JStr ''This feature is not available in your current plan''),
                    (''feature'', JStr feature),
                    (''currentPlan'', JStr (plan u))]
               else Next))"

text \<open>The static plan table of the configuration module (\<^verbatim>\<open>config.plans\<close>).\<close>

record pricing_plan =
  plan_name :: string
  price :: int
  currency :: string
  interval :: string
  features :: "(string \<times> jsvalue) list"

definition config_plans :: "(string \<times> pricing_plan) list" where
  "config_plans =
     [(''basic'',
        \<lparr>plan_name = ''Basic'', price = 29, currency = ''usd'', interval = ''month'',
         features =
           [(''products'', JNum 500), (''descriptions'', JNum 1000), (''languages'', JNum 1),
            (''support'', JStr ''email''), (''customTone'', JBool False),
            (''seoOptimization'', JBool True), (''bulkGeneration'', JBool False)]\<rparr>),
      (''pro'',
        \<lparr>plan_name = ''Pro'', price = 79, currency = ''usd'', interval = ''month'',
         features =
           [(''products'', JNum 2000), (''descriptions'', JNum 5000), (''languages'', JNum 5),
            (''support'', JStr ''priority''), (''customTone'', JBool True),
            (''seoOptimization'', JBool True), (''bulkGeneration'', JBool True)]\<rparr>),
      (''enterprise'',
        \<lparr>plan_name = ''Enterprise'', price = 199, currency = ''usd'', interval = ''month'',
         features =
           [(''products'', JNum (- 1)), (''descriptions'', JNum (- 1)), (''languages'', JNum 10),
            (''support'', JStr ''dedicated''), (''customTone'', JBool True),
            (''seoOptimization'', JBool True), (''bulkGeneration'', JBool True),
            (''customTraining'', JBool True), (''apiAccess'', JBool True)]\<rparr>)]"

text \<open>\<^verbatim>\<open>config.plans.<plan>.features.<flag>\<close>\<close>

definition plan_feature_flag :: "string \<Rightarrow> string \<Rightarrow> jsvalue option" where
  "plan_feature_flag p flag =
     (case map_of config_plans p of
        None \<Rightarrow> None
      | Some pl \<Rightarrow> map_of (features pl) flag)"

section \<open>Rate limiter on Redis\<close>

text \<open>Decimal text of a number, as a template literal prints an integer.\<close>

fun show_nat :: "nat \<Rightarrow> string" where
  "show_nat n =
     (if n < 10 then [''0123456789'' ! n]
      else show_nat (n div 10) @ [''0123456789'' ! (n mod 10)])"

declare show_nat.simps [simp del]

definition show_int :: "int \<Rightarrow> string" where
  "show_int i = (if i < 0 then ''-'' @ show_nat (nat (- i)) else show_nat (nat i))"

text \<open>
  \<^verbatim>\<open>Math.floor(now / windowSeconds)\<close> printed into the key.  Division by zero does not
  throw in JavaScript: it gives an infinity, or \<^verbatim>\<open>NaN\<close> for \<open>0 / 0\<close>.
\<close>

definition window_text :: "int \<Rightarrow> int \<Rightarrow> string" where
  "window_text now windowSeconds =
     (if windowSeconds = 0 then
        (if now = 0 then ''NaN'' else if 0 < now then ''Infinity'' else ''-Infinity'')
      else show_int (now div windowSeconds))"

text \<open>
  The Redis client is outside the repository: each command either replies or throws.
  \<open>Inl\<close> is the thrown error.
\<close>

record redis_client =
  incr :: "string \<Rightarrow> string + int"
  expire :: "string \<Rightarrow> int \<Rightarrow> string + bool"

definition redisKey :: "int \<Rightarrow> string \<Rightarrow> int \<Rightarrow> string" where
  "redisKey nowMs key windowSeconds =
     (let now = nowMs div 1000 in key @ '':'' @ window_text now windowSeconds)"

text \<open>
  \<^verbatim>\<open>rateLimiter.check(key, limit, windowSeconds)\<close>; \<open>nowMs\<close> is the reading of \<^verbatim>\<open>Date.now()\<close>.
  The limit and the window length are integers here.
\<close>

definition rateLimiter_check :: "redis_client \<Rightarrow> int \<Rightarrow> string \<Rightarrow> int \<Rightarrow> int \<Rightarrow> bool" where
  "rateLimiter_check redis nowMs key limit windowSeconds =
     (let k = redisKey nowMs key windowSeconds in
      case incr redis k of
        Inl err \<Rightarrow> True
      | Inr current \<Rightarrow>
          if current = 1 then
            (case expire redis k windowSeconds of
               Inl err \<Rightarrow> True
             | Inr _ \<Rightarrow> current \<le> limit)
          else current \<le> limit)"

section \<open>HTTP error handler (\<^verbatim>\<open>errorHandler\<close>)\<close>


record response =
  status :: int
  body :: "(string \<times> jsvalue) list"












section \<open>Webhook signature verification\<close>

text \<open>
  What a webhook call can touch: the local mirror of subscriptions and products, the
  fields of the payload (\<open>fields_read\<close> lists the names read so far, in order), and the
  log, whose entries are the message and the error handed to \<^verbatim>\<open>logger.error\<close>.
\<close>

record 'm world =
  mirror :: 'm
  fields_read :: "string list"
  log_lines :: "(string \<times> string) list"

definition logger_error :: "string \<Rightarrow> string \<Rightarrow> 'm world \<Rightarrow> 'm world" where
  "logger_error line err w = w\<lparr>log_lines := log_lines w @ [(line, err)]\<rparr>"

text \<open>
  \<^verbatim>\<open>StripeService.verifyWebhook(payload, signature)\<close>.  \<open>constructEvent\<close> is the Stripe
  library's \<^verbatim>\<open>webhooks.constructEvent\<close>, which returns the event or throws (\<open>Inl\<close>);
  \<open>webhookSecret\<close> is \<^verbatim>\<open>config.stripe.webhookSecret\<close>.  The payload is handed to the
  library as the string it arrived as.
\<close>

definition stripe_verifyWebhook ::
  "(string \<Rightarrow> string \<Rightarrow> string \<Rightarrow> string + 'e) \<Rightarrow> string \<Rightarrow> string \<Rightarrow> string \<Rightarrow> 'm world
     \<Rightarrow> 'e option \<times> 'm world" where
  "stripe_verifyWebhook constructEvent webhookSecret payload signature w =
     (case constructEvent payload signature webhookSecret of
        Inr event \<Rightarrow> (Some event, w)
      | Inl err \<Rightarrow> (None, logger_error ''Failed to verify Stripe webhook:'' err w))"

text \<open>
  \<^verbatim>\<open>ShopifyService.verifyWebhook(rawBody, signature, secret)\<close>.  \<open>hmac key data\<close> is the
  base64 digest of \<^verbatim>\<open>crypto.createHmac('sha256', key).update(data, 'utf8')\<close>, or the error it
  throws (\<open>Inl\<close>).
\<close>

definition shopify_verifyWebhook ::
  "(string \<Rightarrow> string \<Rightarrow> string + string) \<Rightarrow> string \<Rightarrow> string \<Rightarrow> string \<Rightarrow> 'm world
     \<Rightarrow> bool \<times> 'm world" where
  "shopify_verifyWebhook hmac rawBody signature secret w =
     (case hmac secret rawBody of
        Inr hash \<Rightarrow> (hash = signature, w)
      | Inl err \<Rightarrow> (False, logger_error ''Failed to verify webhook signature:'' err w))"

subsection \<open>The webhook routes\<close>

text \<open>
  Modelled from the spec: the webhook route handlers (\<^verbatim>\<open>./routes/webhooks\<close>, which
  \<^verbatim>\<open>index.ts\<close> mounts at \<^verbatim>\<open>/api/webhooks\<close>) are not among the source files; only the two
  verification functions they call are.  The spec describes the inbound surface as
  signature-verified payloads that update the local Subscription and product mirrors,
  where a verification failure must reject without mutating state, and a call with an
  invalid signature is rejected before any field is read.  A route therefore verifies
  first, with the service's own function; a payload that fails is rejected there, and
  only an accepted one reaches the body of the route, which reads fields of the event
  and updates the mirror.  Which fields a body reads and what it writes the spec leaves
  open, so a body is any sequence of reads and updates.
\<close>

datatype 'm route_body =
    ReadField string "jsvalue \<Rightarrow> 'm route_body"
  | UpdateMirror "'m \<Rightarrow> 'm" "'m route_body"
  | Finish

definition event_field :: "string \<Rightarrow> (string \<times> jsvalue) list \<Rightarrow> jsvalue" where
  "event_field key event = (case map_of event key of Some v \<Rightarrow> v | None \<Rightarrow> JUndefined)"

primrec run_body :: "'m route_body \<Rightarrow> (string \<times> jsvalue) list \<Rightarrow> 'm world \<Rightarrow> 'm world" where
  "run_body (ReadField key continue) event w =
     run_body (continue (event_field key event)) event (w\<lparr>fields_read := fields_read w @ [key]\<rparr>)"
| "run_body (UpdateMirror change continue) event w =
     run_body continue event (w\<lparr>mirror := change (mirror w)\<rparr>)"
| "run_body Finish event w = w"

datatype webhook_outcome = Rejected | Processed

text \<open>
  Modelled from the spec: the route for the billing platform.  The event the body reads
  is the one the library returned for the verified payload.
\<close>

definition stripe_webhook ::
  "(string \<Rightarrow> string \<Rightarrow> string \<Rightarrow> string + (string \<times> jsvalue) list) \<Rightarrow> string \<Rightarrow> 'm route_body
     \<Rightarrow> string \<Rightarrow> string \<Rightarrow> 'm world \<Rightarrow> webhook_outcome \<times> 'm world" where
  "stripe_webhook constructEvent webhookSecret handler payload signature w =
     (case stripe_verifyWebhook constructEvent webhookSecret payload signature w of
        (None, w') \<Rightarrow> (Rejected, w')
      | (Some event, w') \<Rightarrow> (Processed, run_body handler event w'))"

text \<open>
  Modelled from the spec: the route for the store platform.  \<open>parse\<close> is \<^verbatim>\<open>JSON.parse\<close> on
  the verified body, giving the object whose fields the body of the route reads.
\<close>

definition shopify_webhook ::
  "(string \<Rightarrow> string \<Rightarrow> string + string) \<Rightarrow> string \<Rightarrow> (string \<Rightarrow> (string \<times> jsvalue) list)
     \<Rightarrow> 'm route_body \<Rightarrow> string \<Rightarrow> string \<Rightarrow> 'm world \<Rightarrow> webhook_outcome \<times> 'm world" where
  "shopify_webhook hmac secret parse handler rawBody signature w =
     (case shopify_verifyWebhook hmac rawBody signature secret w of
        (False, w') \<Rightarrow> (Rejected, w')
      | (True, w') \<Rightarrow> (Processed, run_body handler (parse rawBody) w'))"

section \<open>A sample run\<close>

text \<open>
  Seven products, so two batches; the completion service answers every second call with
  a rate-limit error.
\<close>

definition sample_options :: generation_options where
  "sample_options =
     \<lparr>opt_tone = None, opt_language = None, opt_keywords = Some [''red'', ''shoes''],
      opt_wordCount = None, opt_seoOptimization = None, opt_includeFeatures = None,
      opt_includeBenefits = None, opt_customPrompt = None\<rparr>"

definition sample_product :: "string \<Rightarrow> product" where
  "sample_product i =
     \<lparr>product_id = i, title = ''Shoe'', existingDescription = None, vendor = None,
      productType = None, tags = None, images = None\<rparr>"

definition sample_products :: "product list" where
  "sample_products = map sample_product [''a'', ''b'', ''c'', ''d'', ''e'', ''f'', ''g'']"

definition text_reply :: "string \<Rightarrow> api_reply" where
  "text_reply s = Resolves \<lparr>choices = [\<lparr>choice_message = Some \<lparr>message_content = Some s\<rparr>\<rparr>]\<rparr>"

definition sample_api :: "nat \<Rightarrow> api_reply" where
  "sample_api k =
     (if even k then text_reply ''Sturdy red shoes.''
      else Rejects \<lparr>error_code = Some ''rate_limit_exceeded'', error_message = ''slow down''\<rparr>)"

text \<open>A response with a description section and no other section.\<close>

definition keywordless_text :: string where
  "keywordless_text = ''**Product Description:**'' @ [CHR 0x0A] @ ''Sturdy red shoes.''"



text \<open>
  A signing library that accepts one signature, a digest, and a route body that reads the
  customer and the plan of an event and records the plan in the mirror.
\<close>

definition sample_event :: "(string \<times> jsvalue) list" where
  "sample_event = [(''customer'', JStr ''cus_1''), (''plan'', JStr ''pro'')]"

definition sample_constructEvent :: "string \<Rightarrow> string \<Rightarrow> string \<Rightarrow> string + (string \<times> jsvalue) list" where
  "sample_constructEvent payload signature secret =
     (if signature = ''t=1,v1=good'' then Inr sample_event else Inl ''No signatures found'')"

definition sample_hmac :: "string \<Rightarrow> string \<Rightarrow> string + string" where
  "sample_hmac key data = Inr (key @ data)"

definition sample_body :: "(jsvalue \<times> jsvalue) list route_body" where
  "sample_body =
     ReadField ''customer'' (\<lambda>customer.
       ReadField ''plan'' (\<lambda>plan.
         UpdateMirror (\<lambda>m. (customer, plan) # m) Finish))"

definition sample_world :: "(jsvalue \<times> jsvalue) list world" where
  "sample_world =
     \<lparr>mirror = [(JStr ''cus_1'', JStr ''basic'')], fields_read = [], log_lines = []\<rparr>"

section \<open>Properties of the generation client\<close>

lemma blank_content_is_empty:
  "choices c = [] \<Longrightarrow> completion_content c = None"
  "choices c = ch # rest \<Longrightarrow> choice_message ch = None \<Longrightarrow> completion_content c = None"
  "choices c = ch # rest \<Longrightarrow> choice_message ch = Some m \<Longrightarrow> message_content m = None
     \<Longrightarrow> completion_content c = None"
  "choices c = ch # rest \<Longrightarrow> choice_message ch = Some m \<Longrightarrow> message_content m = Some s
     \<Longrightarrow> list_all is_space s \<Longrightarrow> completion_content c = Some []"
proof -
  have "trim s = []" if "list_all is_space s" for s
  proof -
    from that have "dropWhile is_space s = []"
      by (simp only: dropWhile_eq_Nil_conv list_all_iff)
    then show ?thesis by (simp only: trim_def rev.simps dropWhile.simps)
  qed
  then show "choices c = ch # rest \<Longrightarrow> choice_message ch = Some m \<Longrightarrow> message_content m = Some s
     \<Longrightarrow> list_all is_space s \<Longrightarrow> completion_content c = Some []"
    by (simp add: completion_content_def)
qed (simp_all add: completion_content_def)

text \<open>
  C2. If the completion call resolves and \<^verbatim>\<open>choices[0]?.message?.content?.trim()\<close> is
  absent or the empty string, \<^verbatim>\<open>generateDescription\<close> never returns a description: it
  rejects with the \<^verbatim>\<open>ExternalServiceError\<close> of the generic branch (neither the quota nor the
  rate-limit one), whose details carry the cause \<open>No content generated from OpenAI\<close>.
\<close>

theorem empty_response_is_failure:
  "completion_content c = None \<or> completion_content c = Some [] \<Longrightarrow>
     generateDescription p options (Resolves c) =
       Inl (ExternalServiceError ''OpenAI'' ''Failed to generate description''
              (JObj [(''error'', JStr ''No content generated from OpenAI''),
                     (''productTitle'', JStr (title p))]))
     \<and> (\<forall>d. generateDescription p options (Resolves c) \<noteq> Inr d)"
  by (auto simp: generateDescription_def generate_try_def generate_catch_def)

theorem empty_response_is_failure_witness:
  "generateDescription (sample_product ''a'') sample_options (Resolves \<lparr>choices = []\<rparr>) =
       Inl \<lparr>name = ''Error'',
            message = ''OpenAI service error: Failed to generate description'',
            statusCode = Some 502, code = Some ''EXTERNAL_SERVICE_ERROR'',
            details = JObj [(''error'', JStr ''No content generated from OpenAI''),
                            (''productTitle'', JStr ''Shoe'')],
            err_class = OtherError\<rparr>
   \<and> generateDescription (sample_product ''a'') sample_options
         (text_reply [CHR '' '', CHR 0x0A]) =
       Inl \<lparr>name = ''Error'',
            message = ''OpenAI service error: Failed to generate description'',
            statusCode = Some 502, code = Some ''EXTERNAL_SERVICE_ERROR'',
            details = JObj [(''error'', JStr ''No content generated from OpenAI''),
                            (''productTitle'', JStr ''Shoe'')],
            err_class = OtherError\<rparr>"
proof -
  have a: "completion_content \<lparr>choices = []\<rparr> = None"
    by (simp add: completion_content_def)
  have b: "completion_content
             \<lparr>choices = [\<lparr>choice_message = Some \<lparr>message_content = Some [CHR '' '', CHR 0x0A]\<rparr>\<rparr>]\<rparr>
           = Some []"
    by (simp add: completion_content_def trim_def is_space_def)
  from empty_response_is_failure [of "\<lparr>choices = []\<rparr>" "sample_product ''a''" sample_options]
       empty_response_is_failure
         [of "\<lparr>choices = [\<lparr>choice_message = Some \<lparr>message_content = Some [CHR '' '', CHR 0x0A]\<rparr>\<rparr>]\<rparr>"
             "sample_product ''a''" sample_options]
       a b
  show ?thesis
    by (simp add: text_reply_def ExternalServiceError_def CustomError_def sample_product_def)
qed

subsection \<open>Sections that are not found\<close>

text \<open>
  A section is found when its regular expression matches somewhere in the response; a
  response in which the label does not occur has no match.
\<close>

lemma first_match_Some:
  "first_match m s = Some x \<Longrightarrow> \<exists>t. suffix t s \<and> m t = Some x"
proof (induction s)
  case Nil
  then show ?case by auto
next
  case (Cons c cs)
  show ?case
  proof (cases "m (c # cs)")
    case None
    with Cons obtain t where "suffix t cs" and "m t = Some x" by auto
    then show ?thesis by (auto intro: suffix_ConsI)
  next
    case (Some y)
    with Cons.prems show ?thesis by auto
  qed
qed

lemma first_match_None:
  "first_match m s = None \<longleftrightarrow> (\<forall>t. suffix t s \<longrightarrow> m t = None)"
proof (induction s)
  case Nil
  then show ?case by auto
next
  case (Cons c cs)
  show ?case
    by (cases "m (c # cs)") (auto simp: Cons suffix_Cons)
qed

text \<open>
  What the matchers accept, stated without the search: a section is found exactly when
  its label occurs followed by white space and a line feed, the capture starts after
  the last line feed of that white space, and it is the shortest text that reaches a
  line feed with two asterisks or the end of the response.  An SEO score is found
  exactly when the label occurs followed by white space and a digit.
\<close>

lemma newline_in_run_iff:
  "CHR 0x0A \<in> set (takeWhile is_space r) \<longleftrightarrow>
     (\<exists>ws rest. r = ws @ CHR 0x0A # rest \<and> list_all is_space ws)"
proof
  assume "CHR 0x0A \<in> set (takeWhile is_space r)"
  then obtain ws ws2 where tw: "takeWhile is_space r = ws @ CHR 0x0A # ws2"
    by (meson split_list)
  have "\<forall>c \<in> set (takeWhile is_space r). is_space c"
    by (meson set_takeWhileD)
  then have "list_all is_space ws"
    by (simp add: tw list_all_iff)
  moreover have "r = ws @ CHR 0x0A # (ws2 @ dropWhile is_space r)"
    using takeWhile_dropWhile_id [of is_space r] by (simp add: tw)
  ultimately show "\<exists>ws rest. r = ws @ CHR 0x0A # rest \<and> list_all is_space ws"
    by blast
next
  assume "\<exists>ws rest. r = ws @ CHR 0x0A # rest \<and> list_all is_space ws"
  then obtain ws rest where r: "r = ws @ CHR 0x0A # rest" and ws: "list_all is_space ws"
    by blast
  have nl: "is_space (CHR 0x0A)"
    by (simp add: is_space_def)
  from ws have "takeWhile is_space r = ws @ takeWhile is_space (CHR 0x0A # rest)"
    unfolding r by (simp add: takeWhile_append2 list_all_iff)
  with nl show "CHR 0x0A \<in> set (takeWhile is_space r)"
    by simp
qed

lemma section_at_found_iff:
  "section_at label t \<noteq> None \<longleftrightarrow>
     (\<exists>ws rest. t = label @ ws @ CHR 0x0A # rest \<and> list_all is_space ws)"
proof
  assume "section_at label t \<noteq> None"
  then have p: "prefix label t"
    and nl: "CHR 0x0A \<in> set (takeWhile is_space (drop (length label) t))"
    by (auto simp: section_at_def Let_def split: if_splits)
  from p obtain r where t: "t = label @ r" by (auto simp: prefix_def)
  with nl obtain ws rest where "r = ws @ CHR 0x0A # rest" and "list_all is_space ws"
    by (auto simp: newline_in_run_iff)
  with t show "\<exists>ws rest. t = label @ ws @ CHR 0x0A # rest \<and> list_all is_space ws"
    by blast
next
  assume "\<exists>ws rest. t = label @ ws @ CHR 0x0A # rest \<and> list_all is_space ws"
  then obtain ws rest where t: "t = label @ ws @ CHR 0x0A # rest" and ws: "list_all is_space ws"
    by blast
  then have "CHR 0x0A \<in> set (takeWhile is_space (drop (length label) t))"
    using newline_in_run_iff [of "ws @ CHR 0x0A # rest"] by auto
  then show "section_at label t \<noteq> None"
    by (simp add: section_at_def Let_def t)
qed

lemma first_match_found_iff:
  "first_match m s \<noteq> None \<longleftrightarrow> (\<exists>pre t. s = pre @ t \<and> m t \<noteq> None)"
  using first_match_None [of m s] by (auto simp: suffix_def)

lemma section_found_iff:
  "match_section label text \<noteq> None \<longleftrightarrow>
     (\<exists>pre ws rest. text = pre @ label @ ws @ CHR 0x0A # rest \<and> list_all is_space ws)"
  unfolding match_section_def first_match_found_iff section_at_found_iff
  by auto


lemma seo_found_iff:
  "match_seo text \<noteq> None \<longleftrightarrow>
     (\<exists>pre ws d rest. text = pre @ ''**SEO Score:**'' @ ws @ d # rest
        \<and> list_all is_space ws \<and> is_digit d)"
proof -
  have not_both: "\<not> is_space d" if "is_digit d" for d
    using that by (auto simp: is_digit_def is_space_def)
  have at: "seo_at t \<noteq> None \<longleftrightarrow>
      (\<exists>ws d rest. t = ''**SEO Score:**'' @ ws @ d # rest \<and> list_all is_space ws \<and> is_digit d)"
    for t
  proof
    assume "seo_at t \<noteq> None"
    then have p: "prefix ''**SEO Score:**'' t"
      and ds: "takeWhile is_digit (dropWhile is_space (drop (length ''**SEO Score:**'') t)) \<noteq> []"
      by (auto simp: seo_at_def Let_def split: if_splits)
    from p obtain r where t: "t = ''**SEO Score:**'' @ r" by (auto simp: prefix_def)
    from ds t obtain d rest where dr: "dropWhile is_space r = d # rest" and d: "is_digit d"
      by (cases "dropWhile is_space r") (auto split: if_splits)
    have "r = takeWhile is_space r @ d # rest"
      using takeWhile_dropWhile_id [of is_space r] by (simp add: dr)
    moreover have "list_all is_space (takeWhile is_space r)"
      by (simp add: list_all_iff) (meson set_takeWhileD)
    ultimately show "\<exists>ws d rest. t = ''**SEO Score:**'' @ ws @ d # rest
        \<and> list_all is_space ws \<and> is_digit d"
      using t d by blast
  next
    assume "\<exists>ws d rest. t = ''**SEO Score:**'' @ ws @ d # rest \<and> list_all is_space ws \<and> is_digit d"
    then obtain ws d rest where t: "t = ''**SEO Score:**'' @ ws @ d # rest"
      and ws: "list_all is_space ws" and d: "is_digit d"
      by blast
    from ws d have "dropWhile is_space (ws @ d # rest) = d # rest"
      by (simp add: dropWhile_append2 list_all_iff not_both)
    with d show "seo_at t \<noteq> None"
      by (simp add: seo_at_def Let_def t)
  qed
  show ?thesis
    unfolding match_seo_def first_match_found_iff at by blast
qed

lemma section_at_capture:
  assumes t: "t = label @ ws @ CHR 0x0A # rest" and ws: "list_all is_space ws"
    and greedy: "CHR 0x0A \<notin> set (takeWhile is_space rest)"
  shows "section_at label t = Some (lazy_capture rest)"
proof -
  let ?r = "ws @ CHR 0x0A # rest"
  have nl: "is_space (CHR 0x0A)"
    by (simp add: is_space_def)
  have run: "takeWhile is_space ?r = ws @ CHR 0x0A # takeWhile is_space rest"
    using ws nl by (simp add: takeWhile_append2 list_all_iff)
  have dr: "dropWhile is_space ?r = dropWhile is_space rest"
    using ws nl by (simp add: dropWhile_append2 list_all_iff)
  have "takeWhile (\<lambda>c. c \<noteq> CHR 0x0A) (rev (takeWhile is_space ?r))
          = takeWhile (\<lambda>c. c \<noteq> CHR 0x0A) (rev (takeWhile is_space rest))"
    by (simp add: run takeWhile_tail)
  also have "\<dots> = rev (takeWhile is_space rest)"
    using greedy by (simp only: takeWhile_eq_all_conv set_rev) blast
  finally have "takeWhile (\<lambda>c. c \<noteq> CHR 0x0A) (rev (takeWhile is_space ?r))
          = rev (takeWhile is_space rest)" .
  then have "rev (takeWhile (\<lambda>c. c \<noteq> CHR 0x0A) (rev (takeWhile is_space ?r)))
               @ dropWhile is_space ?r = rest"
    by (simp add: dr)
  moreover have "CHR 0x0A \<in> set (takeWhile is_space ?r)"
    by (simp add: run)
  ultimately show ?thesis
    by (simp add: section_at_def Let_def t)
qed

lemma lazy_capture_shortest:
  "\<exists>rest. t = lazy_capture t @ rest
      \<and> (rest = [] \<or> prefix [CHR 0x0A, CHR ''*'', CHR ''*''] rest)
      \<and> (\<forall>cap' rest'. t = cap' @ rest'
             \<and> (rest' = [] \<or> prefix [CHR 0x0A, CHR ''*'', CHR ''*''] rest')
           \<longrightarrow> length (lazy_capture t) \<le> length cap')"
proof (induction t)
  case Nil
  then show ?case by simp
next
  case (Cons c cs)
  show ?case
  proof (cases "prefix [CHR 0x0A, CHR ''*'', CHR ''*''] (c # cs)")
    case True
    then have lc: "lazy_capture (c # cs) = []" by simp
    show ?thesis
      unfolding lc using True by (intro exI [where x = "c # cs"]) simp
  next
    case False
    then have lc: "lazy_capture (c # cs) = c # lazy_capture cs" by simp
    from Cons obtain rest where cs: "cs = lazy_capture cs @ rest"
      and stop: "rest = [] \<or> prefix [CHR 0x0A, CHR ''*'', CHR ''*''] rest"
      and least: "\<forall>cap' rest'. cs = cap' @ rest'
             \<and> (rest' = [] \<or> prefix [CHR 0x0A, CHR ''*'', CHR ''*''] rest')
           \<longrightarrow> length (lazy_capture cs) \<le> length cap'"
      by blast
    have "length (lazy_capture (c # cs)) \<le> length cap'"
      if split: "c # cs = cap' @ rest'"
        and stop': "rest' = [] \<or> prefix [CHR 0x0A, CHR ''*'', CHR ''*''] rest'"
      for cap' rest'
    proof (cases cap')
      case Nil
      with split stop' False show ?thesis by auto
    next
      case (Cons a cap'')
      with split have "cs = cap'' @ rest'" by simp
      with least stop' have "length (lazy_capture cs) \<le> length cap''" by blast
      with Cons show ?thesis by (simp only: lc length_Cons Suc_le_mono)
    qed
    moreover have "c # cs = lazy_capture (c # cs) @ rest"
      using cs by (simp only: lc append_Cons)
    ultimately show ?thesis
      using stop by blast
  qed
qed

lemma label_absent_no_section:
  assumes "\<not> sublist label text"
  shows "match_section label text = None"
proof -
  have "section_at label t = None" if "suffix t text" for t
  proof (cases "prefix label t")
    case True
    with that have "sublist label text"
      by (meson prefix_imp_sublist sublist_order.order_trans suffix_imp_sublist)
    with assms show ?thesis by simp
  next
    case False
    then show ?thesis by (simp add: section_at_def)
  qed
  then show ?thesis
    by (simp add: match_section_def first_match_None)
qed

lemma label_absent_no_seo:
  assumes "\<not> sublist ''**SEO Score:**'' text"
  shows "match_seo text = None"
proof -
  have "seo_at t = None" if "suffix t text" for t
  proof (cases "prefix ''**SEO Score:**'' t")
    case True
    with that have "sublist ''**SEO Score:**'' text"
      by (meson prefix_imp_sublist sublist_order.order_trans suffix_imp_sublist)
    with assms show ?thesis by simp
  next
    case False
    then show ?thesis by (simp add: seo_at_def)
  qed
  then show ?thesis
    by (simp add: match_seo_def first_match_None)
qed

text \<open>
  C4, as stated, fails: in the response below no \<open>Keywords Used\<close> section is found (the
  label does not even occur), yet the content is the extracted description and not the
  raw response, and the keywords are the requested ones and not the empty list.
\<close>

theorem parseResponse_fallback_counterexample:
  "match_section ''**Keywords Used:**'' keywordless_text = None
   \<and> \<not> sublist ''**Keywords Used:**'' keywordless_text
   \<and> content (parseResponse keywordless_text (sample_product ''a'') sample_options)
        = ''Sturdy red shoes.''
   \<and> content (parseResponse keywordless_text (sample_product ''a'') sample_options)
        \<noteq> keywordless_text
   \<and> keyword_list (parseResponse keywordless_text (sample_product ''a'') sample_options)
        = [''red'', ''shoes'']
   \<and> keyword_list (parseResponse keywordless_text (sample_product ''a'') sample_options) \<noteq> []"
  by code_simp

text \<open>
  C4, amended.  When the \<open>Product Description\<close> section is not found, the content is the
  raw response text; the content depends on that section alone, so a missing section of
  another name does not affect it.  When the \<open>Keywords Used\<close> section is not found, the keywords are
  \<^verbatim>\<open>options.keywords\<close> if the caller supplied them and the empty list otherwise.  When
  the \<open>SEO Score\<close>, \<open>Meta Description\<close> or \<open>Title Tag\<close> section is not found, that field is
  undefined.  A section is not found when its regular expression has no match; this is
  so, in particular, whenever its label does not occur in the response.
\<close>

theorem parseResponse_fallback:
  "(match_section ''**Product Description:**'' text = None \<longrightarrow>
      content (parseResponse text p options) = text)
   \<and> content (parseResponse text p options)
       = (case match_section ''**Product Description:**'' text of
            Some g \<Rightarrow> trim g
          | None \<Rightarrow> text)
   \<and> (match_section ''**Keywords Used:**'' text = None \<longrightarrow>
      keyword_list (parseResponse text p options)
        = (case opt_keywords options of Some ks \<Rightarrow> ks | None \<Rightarrow> []))
   \<and> (match_seo text = None \<longrightarrow> seoScore (parseResponse text p options) = None)
   \<and> (match_section ''**Meta Description:**'' text = None \<longrightarrow>
      metaDescription (parseResponse text p options) = None)
   \<and> (match_section ''**Title Tag:**'' text = None \<longrightarrow>
      titleTag (parseResponse text p options) = None)
   \<and> (\<forall>label. \<not> sublist label text \<longrightarrow> match_section label text = None)
   \<and> (\<not> sublist ''**SEO Score:**'' text \<longrightarrow> match_seo text = None)"
proof (intro conjI impI allI)
  show "match_section label text = None" if "\<not> sublist label text" for label
    using that by (rule label_absent_no_section)
  show "match_seo text = None" if "\<not> sublist ''**SEO Score:**'' text"
    using that by (rule label_absent_no_seo)
qed (simp_all add: parseResponse_def Let_def)


theorem parseResponse_fallback_witness:
  "match_section ''**Product Description:**'' ''Sturdy red shoes.'' = None
   \<and> match_section ''**Keywords Used:**'' ''Sturdy red shoes.'' = None
   \<and> match_seo ''Sturdy red shoes.'' = None
   \<and> match_section ''**Meta Description:**'' ''Sturdy red shoes.'' = None
   \<and> match_section ''**Title Tag:**'' ''Sturdy red shoes.'' = None
   \<and> \<not> sublist ''**Keywords Used:**'' ''Sturdy red shoes.''
   \<and> \<not> sublist ''**SEO Score:**'' ''Sturdy red shoes.''
   \<and> content (parseResponse ''Sturdy red shoes.'' (sample_product ''a'') sample_options)
        = ''Sturdy red shoes.''
   \<and> keyword_list (parseResponse ''Sturdy red shoes.'' (sample_product ''a'') sample_options)
        = [''red'', ''shoes'']
   \<and> keyword_list (parseResponse ''Sturdy red shoes.'' (sample_product ''a'')
                       (sample_options\<lparr>opt_keywords := None\<rparr>)) = []
   \<and> seoScore (parseResponse ''Sturdy red shoes.'' (sample_product ''a'') sample_options) = None
   \<and> metaDescription (parseResponse ''Sturdy red shoes.'' (sample_product ''a'') sample_options)
        = None
   \<and> titleTag (parseResponse ''Sturdy red shoes.'' (sample_product ''a'') sample_options) = None"
proof -
  have none: "match_section ''**Product Description:**'' ''Sturdy red shoes.'' = None"
    "match_section ''**Keywords Used:**'' ''Sturdy red shoes.'' = None"
    "match_seo ''Sturdy red shoes.'' = None"
    "match_section ''**Meta Description:**'' ''Sturdy red shoes.'' = None"
    "match_section ''**Title Tag:**'' ''Sturdy red shoes.'' = None"
    by code_simp+
  have absent: "\<not> sublist ''**Keywords Used:**'' ''Sturdy red shoes.''"
    "\<not> sublist ''**SEO Score:**'' ''Sturdy red shoes.''"
    by code_simp+
  have kws: "opt_keywords sample_options = Some [''red'', ''shoes'']"
    "opt_keywords (sample_options\<lparr>opt_keywords := None\<rparr>) = None"
    by (simp_all add: sample_options_def)
  from parseResponse_fallback [of "''Sturdy red shoes.''" "sample_product ''a''" sample_options]
       parseResponse_fallback [of "''Sturdy red shoes.''" "sample_product ''a''"
                                  "sample_options\<lparr>opt_keywords := None\<rparr>"]
       none absent kws
  show ?thesis by simp
qed

section \<open>Runs of the batch orchestrator\<close>

subsection \<open>Lists of slots\<close>

lemma length_slice: "length (slice xs a b) = min b (length xs) - a"
  by (auto simp: slice_def)

lemma nth_slice: "j < length (slice xs a b) \<Longrightarrow> slice xs a b ! j = xs ! (a + j)"
proof -
  assume "j < length (slice xs a b)"
  then have "j < b - a" and "a \<le> length xs"
    by (auto simp: slice_def)
  then show ?thesis
    by (simp add: slice_def)
qed

lemma settled_append: "settled (xs @ ys) = settled xs @ settled ys"
  by (induction xs rule: settled.induct) auto

lemma settled_update:
  assumes "k < length ss" and "ss ! k = InFlight p n"
  shows "\<exists>xs ys. settled ss = xs @ ys \<and> settled (ss[k := Settled e]) = xs @ e # ys"
proof -
  have a: "ss = take k ss @ InFlight p n # drop (Suc k) ss"
    using assms by (metis id_take_nth_drop)
  have b: "ss[k := Settled e] = take k ss @ Settled e # drop (Suc k) ss"
    using assms by (simp add: upd_conv_take_nth_drop)
  have "settled ss = settled (take k ss) @ settled (drop (Suc k) ss)"
    by (subst a) (simp add: settled_append)
  moreover have "settled (ss[k := Settled e]) = settled (take k ss) @ e # settled (drop (Suc k) ss)"
    by (simp add: b settled_append)
  ultimately show ?thesis by blast
qed

lemma settled_all:
  assumes "\<forall>j < length ss. ss ! j = Settled (g j)"
  shows "settled ss = map g [0..<length ss]"
proof -
  have "ss = map (\<lambda>j. Settled (g j)) [0..<length ss]"
    using assms by (intro nth_equalityI) auto
  moreover have "settled (map (\<lambda>j. Settled (g j)) js) = map g js" for js
    by (induction js) auto
  ultimately show ?thesis by metis
qed

lemma inflight_update:
  assumes "k < length ss" and "ss ! k = InFlight p n"
  shows "length (filter (\<lambda>s. \<not> is_settled s) (ss[k := Settled e]))
          < length (filter (\<lambda>s. \<not> is_settled s) ss)"
proof -
  have a: "ss = take k ss @ InFlight p n # drop (Suc k) ss"
    using assms by (metis id_take_nth_drop)
  have b: "ss[k := Settled e] = take k ss @ Settled e # drop (Suc k) ss"
    using assms by (simp add: upd_conv_take_nth_drop)
  show ?thesis by (subst (2) a) (simp add: b)
qed

lemma settled_in_flight: "settled (map (\<lambda>(j, p). InFlight p (f j)) xs) = []"
  by (induction xs) auto

lemma map_outcome_shift: "map (\<lambda>j. g (a + j)) [0..<m] = map g [a..<a + m]"
  by (induction m) auto

subsection \<open>The invariant holds along every run\<close>

lemma inv_initial: "batch_inv api products options (initial products)"
  by (simp add: batch_inv_def initial_def counters_ok_def)

lemma inv_start:
  assumes inv: "batch_inv api products options c"
    and pt: "point c = LoopHead" and lt: "loop_index c < length products"
    and c': "c' = c\<lparr>point := Awaiting,
              slots := map (\<lambda>(j, p). InFlight p (calls c + j))
                         (enumerate 0 (slice products (loop_index c) (loop_index c + batchSize))),
              calls := calls c + length (slice products (loop_index c) (loop_index c + batchSize))\<rparr>"
  shows "batch_inv api products options c'"
proof -
  let ?i = "loop_index c" and ?n = "length products"
  let ?batch = "slice products ?i (?i + batchSize)"
  from inv pt lt have calls: "calls c = ?i"
    and res: "results (result c) = map (outcome api products options) [0..<?i]"
    and cnt: "counters_ok (result c) []"
    and tot: "total_items (result c) = ?n"
    and dv: "batchSize dvd ?i"
    by (auto simp: batch_inv_def)
  have len: "length ?batch = min (?i + batchSize) ?n - ?i"
    by (simp add: length_slice)
  have nth: "map (\<lambda>(j, p). InFlight p (calls c + j)) (enumerate 0 ?batch) ! j
               = InFlight (products ! (?i + j)) (?i + j)" if "j < length ?batch" for j
    using that by (simp add: nth_enumerate_eq nth_slice calls)
  show ?thesis
    unfolding batch_inv_def c'
    using lt tot dv res cnt len nth
    by (simp add: settled_in_flight calls)
qed

lemma inv_settle:
  assumes inv: "batch_inv api products options c"
    and pt: "point c = Awaiting" and k: "k < length (slots c)"
    and sl: "slots c ! k = InFlight p n"
    and c': "c' = c\<lparr>slots := (slots c)[k := Settled (attempt p options (api n))],
                     result := tally (attempt p options (api n)) (result c)\<rparr>"
  shows "batch_inv api products options c'"
proof -
  let ?i = "loop_index c" and ?e = "attempt p options (api n)"
  from inv pt have slots_ok: "\<forall>j < length (slots c).
        slots c ! j = InFlight (products ! (?i + j)) (?i + j) \<or>
        slots c ! j = Settled (outcome api products options (?i + j))"
    and cnt: "counters_ok (result c) (settled (slots c))"
    by (auto simp: batch_inv_def)
  from slots_ok k sl have e: "?e = outcome api products options (?i + k)"
    by (auto simp: outcome_def)
  have slots': "\<forall>j < length (slots c).
        (slots c)[k := Settled ?e] ! j = InFlight (products ! (?i + j)) (?i + j) \<or>
        (slots c)[k := Settled ?e] ! j = Settled (outcome api products options (?i + j))"
  proof (intro allI impI)
    fix j assume j: "j < length (slots c)"
    show "(slots c)[k := Settled ?e] ! j = InFlight (products ! (?i + j)) (?i + j) \<or>
          (slots c)[k := Settled ?e] ! j = Settled (outcome api products options (?i + j))"
    proof (cases "j = k")
      case True
      with j e show ?thesis by simp
    next
      case False
      with j slots_ok show ?thesis by simp
    qed
  qed
  obtain xs ys where xy: "settled (slots c) = xs @ ys"
      "settled ((slots c)[k := Settled ?e]) = xs @ ?e # ys"
    using settled_update [OF k sl] by blast
  have cnt': "counters_ok (tally ?e (result c)) (settled ((slots c)[k := Settled ?e]))"
    using cnt by (auto simp: counters_ok_def tally_def xy)
  have same: "total_items (tally ?e (result c)) = total_items (result c)"
      "results (tally ?e (result c)) = results (result c)"
    by (auto simp: tally_def)
  show ?thesis
    using inv pt slots' cnt' same
    by (simp add: batch_inv_def c')
qed

lemma inv_barrier:
  assumes inv: "batch_inv api products options c"
    and pt: "point c = Awaiting" and all: "list_all is_settled (slots c)"
    and c': "c' = c\<lparr>point := LoopHead, loop_index := loop_index c + batchSize, slots := [],
              result := (result c)\<lparr>results := results (result c) @ settled (slots c)\<rparr>\<rparr>"
  shows "batch_inv api products options c'"
proof -
  let ?i = "loop_index c" and ?n = "length products"
  let ?m = "min (?i + batchSize) ?n"
  from inv pt have lt: "?i < ?n" and calls: "calls c = ?m"
    and len: "length (slots c) = ?m - ?i"
    and slots_ok: "\<forall>j < length (slots c).
        slots c ! j = InFlight (products ! (?i + j)) (?i + j) \<or>
        slots c ! j = Settled (outcome api products options (?i + j))"
    and res: "results (result c) = map (outcome api products options) [0..<?i]"
    and cnt: "counters_ok (result c) (settled (slots c))"
    and tot: "total_items (result c) = ?n"
    and dv: "batchSize dvd ?i"
    by (auto simp: batch_inv_def)
  have "\<forall>j < length (slots c). slots c ! j = Settled (outcome api products options (?i + j))"
  proof (intro allI impI)
    fix j assume j: "j < length (slots c)"
    with all have "is_settled (slots c ! j)" by (simp add: list_all_length)
    with slots_ok j show "slots c ! j = Settled (outcome api products options (?i + j))"
      by auto
  qed
  then have "settled (slots c) = map (\<lambda>j. outcome api products options (?i + j)) [0..<?m - ?i]"
    using settled_all [of "slots c" "\<lambda>j. outcome api products options (?i + j)"] len by simp
  also have "\<dots> = map (outcome api products options) [?i..<?m]"
    using lt by (simp add: map_outcome_shift)
  finally have st: "settled (slots c) = map (outcome api products options) [?i..<?m]" .
  have "?i \<le> ?m" using lt by simp
  then have "[0..<?m] = [0..<?i] @ [?i..<?m]"
    using upt_add_eq_append [of 0 ?i "?m - ?i"] by simp
  then have res': "results (result c) @ settled (slots c) = map (outcome api products options) [0..<?m]"
    by (simp add: res st)
  show ?thesis
    using tot dv calls res' cnt
    by (simp add: batch_inv_def c' counters_ok_def)
qed

lemma inv_return:
  assumes inv: "batch_inv api products options c"
    and pt: "point c = LoopHead" and ge: "\<not> loop_index c < length products"
    and c': "c' = c\<lparr>point := Returned\<rparr>"
  shows "batch_inv api products options c'"
  using inv pt ge by (simp add: batch_inv_def c' min_def)

lemma inv_step:
  assumes "batch_inv api products options c" and "step api products options c c'"
  shows "batch_inv api products options c'"
  using assms(2)
proof cases
  case (start batch)
  with assms(1) show ?thesis by (auto intro: inv_start)
next
  case (settle k p n e)
  with assms(1) show ?thesis by (auto intro: inv_settle)
next
  case barrier
  with assms(1) show ?thesis by (auto intro: inv_barrier)
next
  case return
  with assms(1) show ?thesis by (auto intro: inv_return)
qed

lemma reachable_inv:
  "reachable api products options c \<Longrightarrow> batch_inv api products options c"
  unfolding reachable_def
  by (induction rule: rtranclp_induct) (auto intro: inv_initial inv_step)

subsection \<open>Every run ends\<close>

lemma step_decreases:
  assumes "step api products options c c'"
  shows "steps_left products c' < steps_left products c"
  using assms
proof cases
  case (start batch)
  have "length (filter (\<lambda>s. \<not> is_settled s)
           (map (\<lambda>(j, p). InFlight p (calls c + j)) (enumerate 0 batch))) \<le> length batch"
    by (metis length_filter_le length_map length_enumerate)
  moreover have "length batch \<le> 5"
    using start by (simp add: slice_def batchSize_def)
  ultimately show ?thesis
    using start by (simp add: steps_left_def batchSize_def)
next
  case (settle k p n e)
  then show ?thesis
    using inflight_update [of k "slots c" p n e] by (simp add: steps_left_def)
next
  case barrier
  then have "filter (\<lambda>s. \<not> is_settled s) (slots c) = []"
    by (simp add: filter_empty_conv list_all_iff)
  with barrier show ?thesis by (simp add: steps_left_def)
next
  case return
  then show ?thesis by (simp add: steps_left_def)
qed

lemma progress:
  assumes "point c \<noteq> Returned"
  shows "\<exists>c'. step api products options c c'"
proof (cases "point c")
  case LoopHead
  show ?thesis
  proof (cases "loop_index c < length products")
    case True
    with LoopHead show ?thesis by (blast intro: step.start)
  next
    case False
    with LoopHead show ?thesis by (blast intro: step.return)
  qed
next
  case Awaiting
  show ?thesis
  proof (cases "list_all is_settled (slots c)")
    case True
    with Awaiting show ?thesis by (blast intro: step.barrier)
  next
    case False
    then obtain k where k: "k < length (slots c)" and ns: "\<not> is_settled (slots c ! k)"
      by (auto simp: list_all_length)
    then obtain p n where "slots c ! k = InFlight p n"
      by (cases "slots c ! k") auto
    with Awaiting k show ?thesis by (blast intro: step.settle)
  qed
next
  case Returned
  with assms show ?thesis by simp
qed

lemma run_ends:
  "\<exists>c'. (step api products options)\<^sup>*\<^sup>* c c' \<and> point c' = Returned"
proof (induction c rule: measure_induct_rule [where f = "steps_left products"])
  case (less c)
  show ?case
  proof (cases "point c = Returned")
    case True
    then show ?thesis by blast
  next
    case False
    then obtain c1 where s: "step api products options c c1"
      using progress by blast
    then have "steps_left products c1 < steps_left products c"
      by (rule step_decreases)
    then obtain c' where "(step api products options)\<^sup>*\<^sup>* c1 c'" and "point c' = Returned"
      using less.IH by blast
    with s show ?thesis
      by (meson converse_rtranclp_into_rtranclp)
  qed
qed

lemma runs_are_finite: "wf {(c', c). step api products options c c'}"
proof -
  have "{(c', c). step api products options c c'} \<subseteq> measure (steps_left products)"
    by (auto dest: step_decreases)
  then show ?thesis
    by (rule wf_subset [OF wf_measure])
qed

lemma returned_is_final: "point c = Returned \<Longrightarrow> \<not> step api products options c c'"
  by (auto elim: step.cases)

subsection \<open>The returned value does not depend on the order of the replies\<close>

lemma batch_results:
  "map (\<lambda>(j, p). attempt p options (api (i + j))) (enumerate 0 (slice products i (i + batchSize)))
     = map (outcome api products options) [i..<min (i + batchSize) (length products)]"
proof (rule nth_equalityI)
  show "length (map (\<lambda>(j, p). attempt p options (api (i + j)))
                  (enumerate 0 (slice products i (i + batchSize))))
          = length (map (outcome api products options) [i..<min (i + batchSize) (length products)])"
    by (simp add: length_slice)
next
  fix j
  assume "j < length (map (\<lambda>(j, p). attempt p options (api (i + j)))
                        (enumerate 0 (slice products i (i + batchSize))))"
  then have j: "j < length (slice products i (i + batchSize))" by simp
  then have "j < min (i + batchSize) (length products) - i" by (simp only: length_slice)
  then have lt: "i + j < min (i + batchSize) (length products)" by arith
  have lhs: "map (\<lambda>(j, p). attempt p options (api (i + j)))
                  (enumerate 0 (slice products i (i + batchSize))) ! j
               = attempt (products ! (i + j)) options (api (i + j))"
    using j by (simp add: nth_enumerate_eq nth_slice)
  have "j < length [i..<min (i + batchSize) (length products)]"
    unfolding length_upt using lt by arith
  then have rhs: "map (outcome api products options) [i..<min (i + batchSize) (length products)] ! j
               = outcome api products options (i + j)"
    using lt by (simp only: nth_map nth_upt)
  show "map (\<lambda>(j, p). attempt p options (api (i + j)))
                  (enumerate 0 (slice products i (i + batchSize))) ! j
          = map (outcome api products options) [i..<min (i + batchSize) (length products)] ! j"
    by (simp only: lhs rhs outcome_def)
qed

lemma batch_loop_closed:
  "ncalls = i \<or> length products \<le> i \<Longrightarrow>
   batch_loop api products options i ncalls r =
     r\<lparr>successful := successful r
          + length (filter success (map (outcome api products options) [i..<length products])),
       failed := failed r
          + length (filter (\<lambda>e. \<not> success e)
                      (map (outcome api products options) [i..<length products])),
       results := results r @ map (outcome api products options) [i..<length products]\<rparr>"
proof (induction api products options i ncalls r rule: batch_loop.induct)
  case (1 api products options i ncalls r)
  let ?n = "length products"
  show ?case
  proof (cases "i < ?n")
    case False
    then show ?thesis by (simp add: batch_loop.simps)
  next
    case True
    with "1.prems" have nc: "ncalls = i" by simp
    let ?batch = "slice products i (i + batchSize)"
    let ?m = "min (i + batchSize) ?n"
    let ?rs = "map (\<lambda>(j, p). attempt p options (api (ncalls + j))) (enumerate 0 ?batch)"
    let ?r' = "r\<lparr>successful := successful r + length (filter success ?rs),
                  failed := failed r + length (filter (\<lambda>e. \<not> success e) ?rs),
                  results := results r @ ?rs\<rparr>"
    have rs: "?rs = map (outcome api products options) [i..<?m]"
      unfolding nc by (rule batch_results)
    have pre: "ncalls + length ?batch = i + batchSize \<or> ?n \<le> i + batchSize"
      using True by (auto simp: nc length_slice)
    have split: "[i..<?n] = [i..<?m] @ [i + batchSize..<?n]"
    proof (cases "i + batchSize \<le> ?n")
      case True
      then show ?thesis 
        using upt_add_eq_append [of i "i + batchSize" "?n - (i + batchSize)"] by (simp add: min_def)
    next
      case False
      then show ?thesis by (simp add: min_def)
    qed
    have "batch_loop api products options i ncalls r
            = batch_loop api products options (i + batchSize) (ncalls + length ?batch) ?r'"
      using True by (subst batch_loop.simps) (simp add: Let_def)
    also have "\<dots> = ?r'\<lparr>successful := successful ?r'
          + length (filter success (map (outcome api products options) [i + batchSize..<?n])),
       failed := failed ?r'
          + length (filter (\<lambda>e. \<not> success e)
                      (map (outcome api products options) [i + batchSize..<?n])),
       results := results ?r' @ map (outcome api products options) [i + batchSize..<?n]\<rparr>"
      using "1.IH" [OF True refl refl pre] .
    also have "\<dots> = r\<lparr>successful := successful r
          + length (filter success (map (outcome api products options) [i..<?n])),
       failed := failed r
          + length (filter (\<lambda>e. \<not> success e) (map (outcome api products options) [i..<?n])),
       results := results r @ map (outcome api products options) [i..<?n]\<rparr>"
      by (simp add: rs split)
    finally show ?thesis .
  qed
qed

lemma batchGenerateDescriptions_closed:
  "batchGenerateDescriptions api products options =
     \<lparr>total_items = length products,
      successful = length (filter success (map (outcome api products options) [0..<length products])),
      failed = length (filter (\<lambda>e. \<not> success e)
                          (map (outcome api products options) [0..<length products])),
      results = map (outcome api products options) [0..<length products]\<rparr>"
  by (simp add: batchGenerateDescriptions_def batch_loop_closed)

lemma returned_result:
  assumes "reachable api products options c" and "point c = Returned"
  shows "result c = batchGenerateDescriptions api products options"
proof -
  from assms have "batch_inv api products options c"
    by (simp add: reachable_inv)
  with assms(2) show ?thesis
    by (intro batch_result.equality)
       (auto simp: batch_inv_def counters_ok_def batchGenerateDescriptions_closed)
qed

lemma returns:
  "\<exists>c. reachable api products options c \<and> point c = Returned"
  unfolding reachable_def by (rule run_ends)

section \<open>Properties of the batch orchestrator\<close>

lemma length_settled_le: "length (settled ss) \<le> length ss"
  by (induction ss rule: settled.induct) auto

lemma productId_attempt: "productId (attempt p options reply) = product_id p"
  by (simp add: attempt_def split: sum.split)

lemma productId_outcomes:
  "m \<le> length products \<Longrightarrow>
     map productId (map (outcome api products options) [0..<m]) = take m (map product_id products)"
  by (rule nth_equalityI) (simp_all add: outcome_def productId_attempt)

lemma counters_sum:
  "counters_ok r pending \<Longrightarrow> successful r + failed r = length (results r) + length pending"
proof -
  assume "counters_ok r pending"
  then have "successful r + failed r
      = length (filter success (results r @ pending))
        + length (filter (\<lambda>e. \<not> success e) (results r @ pending))"
    by (simp add: counters_ok_def)
  also have "\<dots> = length (results r @ pending)"
    by (rule sum_length_filter_compl)
  finally show ?thesis by simp
qed

lemma tally_cases:
  "total_items (tally e r) = total_items r \<and>
   ((successful (tally e r) = successful r + 1 \<and> failed (tally e r) = failed r) \<or>
    (successful (tally e r) = successful r \<and> failed (tally e r) = failed r + 1))"
  by (simp add: tally_def)

lemma sample_run_value:
  "batchGenerateDescriptions sample_api sample_products sample_options =
     \<lparr>total_items = 7, successful = 4, failed = 3,
      results =
        [\<lparr>productId = ''a'', success = True,
          description = Some \<lparr>content = ''Sturdy red shoes.'', wordCount = 3, seoScore = None,
                               keyword_list = [''red'', ''shoes''], metaDescription = None,
                               titleTag = None\<rparr>,
          error = None\<rparr>,
         \<lparr>productId = ''b'', success = False, description = None,
          error = Some ''OpenAI service error: Rate limit exceeded''\<rparr>,
         \<lparr>productId = ''c'', success = True,
          description = Some \<lparr>content = ''Sturdy red shoes.'', wordCount = 3, seoScore = None,
                               keyword_list = [''red'', ''shoes''], metaDescription = None,
                               titleTag = None\<rparr>,
          error = None\<rparr>,
         \<lparr>productId = ''d'', success = False, description = None,
          error = Some ''OpenAI service error: Rate limit exceeded''\<rparr>,
         \<lparr>productId = ''e'', success = True,
          description = Some \<lparr>content = ''Sturdy red shoes.'', wordCount = 3, seoScore = None,
                               keyword_list = [''red'', ''shoes''], metaDescription = None,
                               titleTag = None\<rparr>,
          error = None\<rparr>,
         \<lparr>productId = ''f'', success = False, description = None,
          error = Some ''OpenAI service error: Rate limit exceeded''\<rparr>,
         \<lparr>productId = ''g'', success = True,
          description = Some \<lparr>content = ''Sturdy red shoes.'', wordCount = 3, seoScore = None,
                               keyword_list = [''red'', ''shoes''], metaDescription = None,
                               titleTag = None\<rparr>,
          error = None\<rparr>]\<rparr>"
  by code_simp

lemma sample_midway:
  "\<exists>c. reachable sample_api sample_products sample_options c \<and> point c = Awaiting
       \<and> successful (result c) = 0 \<and> failed (result c) = 1
       \<and> results (result c) = [] \<and> calls c = 5"
proof -
  let ?step = "step sample_api sample_products sample_options"
  let ?c0 = "initial sample_products"
  let ?c1 = "?c0\<lparr>point := Awaiting,
              slots := map (\<lambda>(j, p). InFlight p (calls ?c0 + j))
                         (enumerate 0 (slice sample_products (loop_index ?c0)
                                         (loop_index ?c0 + batchSize))),
              calls := calls ?c0 + length (slice sample_products (loop_index ?c0)
                                             (loop_index ?c0 + batchSize))\<rparr>"
  let ?e = "attempt (sample_product ''b'') sample_options (sample_api 1)"
  let ?c2 = "?c1\<lparr>slots := (slots ?c1)[1 := Settled ?e], result := tally ?e (result ?c1)\<rparr>"
  have s1: "?step ?c0 ?c1"
    by (rule step.start [OF _ _ refl refl]) (simp_all add: initial_def sample_products_def)
  have pt: "point ?c1 = Awaiting"
    by simp
  have k: "1 < length (slots ?c1)"
    by code_simp
  have nth: "slots ?c1 ! 1 = InFlight (sample_product ''b'') 1"
    by code_simp
  have s2: "?step ?c1 ?c2"
    by (rule step.settle [OF pt k nth refl refl])
  have "?step\<^sup>*\<^sup>* ?c0 ?c1"
    using s1 by (rule r_into_rtranclp)
  then have "?step\<^sup>*\<^sup>* ?c0 ?c2"
    using s2 by (rule rtranclp.rtrancl_into_rtrancl)
  then have "reachable sample_api sample_products sample_options ?c2"
    by (simp only: reachable_def)
  moreover have "point ?c2 = Awaiting \<and> successful (result ?c2) = 0 \<and> failed (result ?c2) = 1
       \<and> results (result ?c2) = [] \<and> calls ?c2 = 5"
    by code_simp
  ultimately show ?thesis by blast
qed

text \<open>
  C1. At every configuration a run of \<^verbatim>\<open>batchGenerateDescriptions\<close> passes, \<open>total\<close> is the
  number of input products and \<open>successful + failed \<le> total\<close>; a step leaves \<open>total\<close> alone and
  raises at most one of the two counters, by one.  When the function has returned,
  \<open>successful + failed = total\<close> and \<open>results\<close> has exactly one entry per input product: the
  \<open>k\<close>-th entry is the one made for the \<open>k\<close>-th product.  From every such configuration the
  run can be completed, so the function does return.
\<close>

theorem batch_counters_invariant:
  "reachable api products options c \<Longrightarrow>
     total_items (result c) = length products \<and>
     successful (result c) + failed (result c) \<le> total_items (result c) \<and>
     (\<forall>c'. step api products options c c' \<longrightarrow>
        total_items (result c') = total_items (result c) \<and>
        ((successful (result c') = successful (result c) \<and> failed (result c') = failed (result c)) \<or>
         (successful (result c') = successful (result c) + 1 \<and> failed (result c') = failed (result c)) \<or>
         (successful (result c') = successful (result c) \<and> failed (result c') = failed (result c) + 1))) \<and>
     (point c = Returned \<longrightarrow>
        successful (result c) + failed (result c) = total_items (result c) \<and>
        length (results (result c)) = length products \<and>
        results (result c)
          = map (\<lambda>k. attempt (products ! k) options (api k)) [0..<length products]) \<and>
     (\<exists>c'. (step api products options)\<^sup>*\<^sup>* c c' \<and> point c' = Returned)"
proof -
  assume r: "reachable api products options c"
  then have inv: "batch_inv api products options c" by (rule reachable_inv)
  let ?n = "length products" and ?r = "result c"
  have tot: "total_items ?r = ?n"
    using inv by (simp add: batch_inv_def)
  have le: "successful ?r + failed ?r \<le> ?n"
  proof (cases "point c")
    case LoopHead
    with inv have "counters_ok ?r []" and "length (results ?r) = min (loop_index c) ?n"
      by (auto simp: batch_inv_def)
    then show ?thesis using counters_sum [of ?r "[]"] by simp
  next
    case Awaiting
    with inv have cnt: "counters_ok ?r (settled (slots c))"
      and len: "length (results ?r) = loop_index c"
      and sl: "length (slots c) = min (loop_index c + batchSize) ?n - loop_index c"
      and lt: "loop_index c < ?n"
      by (auto simp: batch_inv_def)
    have "successful ?r + failed ?r = loop_index c + length (settled (slots c))"
      using counters_sum [OF cnt] len by simp
    also have "\<dots> \<le> loop_index c + length (slots c)"
      using length_settled_le [of "slots c"] by simp
    also have "\<dots> \<le> ?n"
      using sl lt by simp
    finally show ?thesis .
  next
    case Returned
    with inv have "counters_ok ?r []" and "length (results ?r) = ?n"
      by (auto simp: batch_inv_def)
    then show ?thesis using counters_sum [of ?r "[]"] by simp
  qed
  have one: "total_items (result c') = total_items ?r \<and>
        ((successful (result c') = successful ?r \<and> failed (result c') = failed ?r) \<or>
         (successful (result c') = successful ?r + 1 \<and> failed (result c') = failed ?r) \<or>
         (successful (result c') = successful ?r \<and> failed (result c') = failed ?r + 1))"
    if "step api products options c c'" for c'
    using that
  proof cases
    case (settle k p n e)
    then show ?thesis using tally_cases [of e ?r] by auto
  qed auto
  have fin: "successful ?r + failed ?r = total_items ?r \<and> length (results ?r) = ?n \<and>
        results ?r = map (\<lambda>k. attempt (products ! k) options (api k)) [0..<?n]"
    if "point c = Returned"
  proof -
    from inv that have "counters_ok ?r []"
      and rs: "results ?r = map (outcome api products options) [0..<?n]"
      by (auto simp: batch_inv_def)
    then have "successful ?r + failed ?r = total_items ?r" and "length (results ?r) = ?n"
      using counters_sum [of ?r "[]"] tot by simp_all
    moreover have "results ?r = map (\<lambda>k. attempt (products ! k) options (api k)) [0..<?n]"
      unfolding rs by (simp add: outcome_def)
    ultimately show ?thesis by simp
  qed
  have ends: "\<exists>c'. (step api products options)\<^sup>*\<^sup>* c c' \<and> point c' = Returned"
    by (rule run_ends)
  from le tot have le': "successful ?r + failed ?r \<le> total_items ?r"
    by simp
  show ?thesis
  proof (intro conjI)
    show "total_items ?r = ?n" by (rule tot)
    show "successful ?r + failed ?r \<le> total_items ?r" by (rule le')
    show "\<forall>c'. step api products options c c' \<longrightarrow>
        total_items (result c') = total_items ?r \<and>
        ((successful (result c') = successful ?r \<and> failed (result c') = failed ?r) \<or>
         (successful (result c') = successful ?r + 1 \<and> failed (result c') = failed ?r) \<or>
         (successful (result c') = successful ?r \<and> failed (result c') = failed ?r + 1))"
      using one by blast
    show "point c = Returned \<longrightarrow>
        successful ?r + failed ?r = total_items ?r \<and> length (results ?r) = ?n \<and>
        results ?r = map (\<lambda>k. attempt (products ! k) options (api k)) [0..<?n]"
      using fin by blast
    show "\<exists>c'. (step api products options)\<^sup>*\<^sup>* c c' \<and> point c' = Returned"
      by (rule ends)
  qed
qed

theorem batch_counters_invariant_witness:
  "(\<exists>c. reachable sample_api sample_products sample_options c \<and> point c = Returned
       \<and> total_items (result c) = 7 \<and> successful (result c) = 4 \<and> failed (result c) = 3
       \<and> successful (result c) + failed (result c) = total_items (result c)
       \<and> length (results (result c)) = length sample_products)
   \<and> (\<exists>c. reachable sample_api sample_products sample_options c \<and> point c = Awaiting
       \<and> total_items (result c) = 7 \<and> successful (result c) = 0 \<and> failed (result c) = 1
       \<and> successful (result c) + failed (result c) \<le> total_items (result c))"
proof
  obtain c where r: "reachable sample_api sample_products sample_options c"
    and p: "point c = Returned"
    using returns by blast
  have v: "successful (result c) = 4 \<and> failed (result c) = 3"
    using returned_result [OF r p] by (simp add: sample_run_value)
  have n: "length sample_products = 7"
    by (simp add: sample_products_def)
  from batch_counters_invariant [OF r] p v n r
  show "\<exists>c. reachable sample_api sample_products sample_options c \<and> point c = Returned
       \<and> total_items (result c) = 7 \<and> successful (result c) = 4 \<and> failed (result c) = 3
       \<and> successful (result c) + failed (result c) = total_items (result c)
       \<and> length (results (result c)) = length sample_products"
    by auto
next
  obtain c where r: "reachable sample_api sample_products sample_options c"
    and p: "point c = Awaiting" and v: "successful (result c) = 0" "failed (result c) = 1"
    using sample_midway by blast
  have n: "length sample_products = 7"
    by (simp add: sample_products_def)
  from batch_counters_invariant [OF r] p v n r
  show "\<exists>c. reachable sample_api sample_products sample_options c \<and> point c = Awaiting
       \<and> total_items (result c) = 7 \<and> successful (result c) = 0 \<and> failed (result c) = 1
       \<and> successful (result c) + failed (result c) \<le> total_items (result c)"
    by auto
qed

text \<open>
  C3. Whatever the order in which the replies of a batch arrive, \<open>results\<close> always lists
  the product ids of a prefix of the input, in input order, and grows by whole batches
  (its length is a multiple of the batch size, or the input length).  When the function
  has returned, the product id of \<open>results[i]\<close> is the id of the \<open>i\<close>-th input product, for
  every index \<open>i\<close>.
\<close>

theorem results_in_input_order:
  "reachable api products options c \<Longrightarrow>
     map productId (results (result c))
       = take (length (results (result c))) (map product_id products) \<and>
     (batchSize dvd length (results (result c)) \<or>
      length (results (result c)) = length products) \<and>
     (point c = Returned \<longrightarrow>
        map productId (results (result c)) = map product_id products \<and>
        (\<forall>i < length products.
            productId (results (result c) ! i) = product_id (products ! i)))"
proof -
  assume "reachable api products options c"
  then have inv: "batch_inv api products options c" by (rule reachable_inv)
  let ?n = "length products" and ?rs = "results (result c)"
  obtain m where m: "m \<le> ?n" and rs: "?rs = map (outcome api products options) [0..<m]"
    and chunk: "batchSize dvd m \<or> m = ?n" and ret: "point c = Returned \<longrightarrow> m = ?n"
  proof (cases "point c")
    case LoopHead
    with inv have "?rs = map (outcome api products options) [0..<min (loop_index c) ?n]"
      and "batchSize dvd loop_index c"
      by (auto simp: batch_inv_def)
    with LoopHead that [of "min (loop_index c) ?n"] show ?thesis
      by (auto simp: min_def)
  next
    case Awaiting
    with inv have "?rs = map (outcome api products options) [0..<loop_index c]"
      and "batchSize dvd loop_index c" and "loop_index c < ?n"
      by (auto simp: batch_inv_def)
    with Awaiting that [of "loop_index c"] show ?thesis
      by auto
  next
    case Returned
    with inv have "?rs = map (outcome api products options) [0..<?n]"
      by (auto simp: batch_inv_def)
    with that [of ?n] show ?thesis
      by auto
  qed
  have len: "length ?rs = m"
    by (simp add: rs)
  have ids: "map productId ?rs = take m (map product_id products)"
    unfolding rs using m by (rule productId_outcomes)
  have fin: "map productId ?rs = map product_id products \<and>
        (\<forall>i < ?n. productId (?rs ! i) = product_id (products ! i))"
    if "point c = Returned"
  proof -
    from that ret have mn: "m = ?n" by simp
    with ids have all: "map productId ?rs = map product_id products" by simp
    have "productId (?rs ! i) = product_id (products ! i)" if "i < ?n" for i
    proof -
      from that len mn have "i < length ?rs" by simp
      then have "productId (?rs ! i) = map productId ?rs ! i" by simp
      also have "\<dots> = product_id (products ! i)" using that by (simp add: all)
      finally show ?thesis .
    qed
    with all show ?thesis by blast
  qed
  show ?thesis
  proof (intro conjI)
    show "map productId ?rs = take (length ?rs) (map product_id products)"
      using ids len by simp
    show "batchSize dvd length ?rs \<or> length ?rs = ?n"
      using chunk len by simp
    show "point c = Returned \<longrightarrow>
        map productId ?rs = map product_id products \<and>
        (\<forall>i < ?n. productId (?rs ! i) = product_id (products ! i))"
      using fin by blast
  qed
qed

theorem results_in_input_order_witness:
  "\<exists>c. reachable sample_api sample_products sample_options c \<and> point c = Returned
       \<and> map productId (results (result c)) = [''a'', ''b'', ''c'', ''d'', ''e'', ''f'', ''g'']
       \<and> productId (results (result c) ! 6) = ''g''"
proof -
  obtain c where r: "reachable sample_api sample_products sample_options c"
    and p: "point c = Returned"
    using returns by blast
  have ids: "map product_id sample_products = [''a'', ''b'', ''c'', ''d'', ''e'', ''f'', ''g'']"
    by (simp add: sample_products_def sample_product_def)
  have g: "product_id (sample_products ! 6) = ''g'' \<and> 6 < length sample_products"
    by (simp add: sample_products_def sample_product_def)
  from results_in_input_order [OF r] p ids g r show ?thesis
    by auto
qed

lemma attempt_failure:
  "generateDescription p options reply = Inl err \<Longrightarrow>
     attempt p options reply =
       \<lparr>productId = product_id p, success = False, description = None,
        error = Some (message err)\<rparr>"
  by (simp add: attempt_def)

lemma calls_bounded:
  assumes "reachable api products options c"
  shows "calls c \<le> length products"
proof -
  from assms have inv: "batch_inv api products options c" by (rule reachable_inv)
  then show ?thesis
    by (cases "point c") (auto simp: batch_inv_def)
qed

text \<open>
  C6. When \<^verbatim>\<open>batchGenerateDescriptions\<close> has returned, the entry of every product \<open>k\<close> is what
  its own callback produced from the reply to call number \<open>k\<close>: if \<^verbatim>\<open>generateDescription\<close>
  failed with \<open>err\<close>, the entry has \<open>success = false\<close> and the message of \<open>err\<close>.  Every
  product has an entry, exactly as many completion calls were made as there are
  products (no call is repeated), and the function returns a value: a run that ends in
  \<open>Returned\<close> always exists, and the relation has no step that throws.
\<close>

theorem item_failure_is_recorded:
  "reachable api products options c \<Longrightarrow> point c = Returned \<Longrightarrow> k < length products \<Longrightarrow>
     results (result c) ! k = attempt (products ! k) options (api k) \<and>
     (\<forall>err. generateDescription (products ! k) options (api k) = Inl err \<longrightarrow>
         results (result c) ! k =
           \<lparr>productId = product_id (products ! k), success = False, description = None,
            error = Some (message err)\<rparr>) \<and>
     length (results (result c)) = length products \<and>
     calls c = length products \<and>
     result c = batchGenerateDescriptions api products options \<and>
     (\<exists>c'. reachable api products options c' \<and> point c' = Returned)"
proof -
  assume r: "reachable api products options c" and p: "point c = Returned"
    and k: "k < length products"
  from r have inv: "batch_inv api products options c" by (rule reachable_inv)
  with p have rs: "results (result c) = map (outcome api products options) [0..<length products]"
    and calls: "calls c = length products"
    by (auto simp: batch_inv_def)
  have entry: "results (result c) ! k = attempt (products ! k) options (api k)"
    using k by (simp add: rs outcome_def)
  show ?thesis
  proof (intro conjI)
    show "results (result c) ! k = attempt (products ! k) options (api k)"
      by (rule entry)
    show "\<forall>err. generateDescription (products ! k) options (api k) = Inl err \<longrightarrow>
         results (result c) ! k =
           \<lparr>productId = product_id (products ! k), success = False, description = None,
            error = Some (message err)\<rparr>"
      using entry by (simp add: attempt_failure)
    show "length (results (result c)) = length products"
      by (simp add: rs)
    show "calls c = length products"
      by (rule calls)
    show "result c = batchGenerateDescriptions api products options"
      using r p by (rule returned_result)
    show "\<exists>c'. reachable api products options c' \<and> point c' = Returned"
      by (rule returns)
  qed
qed

theorem item_failure_is_recorded_witness:
  "\<exists>c. reachable sample_api sample_products sample_options c \<and> point c = Returned
       \<and> results (result c) ! 1 =
            \<lparr>productId = ''b'', success = False, description = None,
             error = Some ''OpenAI service error: Rate limit exceeded''\<rparr>
       \<and> success (results (result c) ! 2)
       \<and> length (results (result c)) = 7
       \<and> calls c = 7"
proof -
  obtain c where r: "reachable sample_api sample_products sample_options c"
    and p: "point c = Returned"
    using returns by blast
  have k: "1 < length sample_products"
    by (simp add: sample_products_def)
  have n: "length sample_products = 7"
    by (simp add: sample_products_def)
  have f: "generateDescription (sample_products ! 1) sample_options (sample_api 1)
             = Inl (ExternalServiceError ''OpenAI'' ''Rate limit exceeded''
                      (error_object \<lparr>error_code = Some ''rate_limit_exceeded'',
                                     error_message = ''slow down''\<rparr>))"
    by (simp add: generateDescription_def generate_try_def generate_catch_def sample_api_def)
  have m: "message (ExternalServiceError ''OpenAI'' ''Rate limit exceeded'' d)
             = ''OpenAI service error: Rate limit exceeded''" for d
    by (simp add: ExternalServiceError_def CustomError_def)
  have b: "product_id (sample_products ! 1) = ''b''"
    by (simp add: sample_products_def sample_product_def)
  have two: "success (results (result c) ! 2)"
    using returned_result [OF r p] by (simp add: sample_run_value)
  from item_failure_is_recorded [OF r p k] f m b two n r p show ?thesis
    by auto
qed

section \<open>Properties of the cost estimate\<close>

lemma modelPricing_unknown_model:
  assumes "model \<notin> fst ` set pricing" and "model \<notin> set object_prototype_properties"
  shows "modelPricing model = modelPricing ''gpt-4''"
proof -
  from assms(1) have "map_of pricing model = None"
    by (simp add: map_of_eq_None_iff)
  with assms(2) have "get_property pricing model = Missing"
    by (simp add: get_property_def)
  moreover have "get_property pricing ''gpt-4'' = Own \<lparr>input_price = 3 / 100, output_price = 6 / 100\<rparr>"
    by (simp add: get_property_def pricing_def)
  ultimately show ?thesis
    by (simp add: modelPricing_def)
qed

lemma calculateCost_unknown_model:
  "model \<notin> fst ` set pricing \<Longrightarrow> model \<notin> set object_prototype_properties \<Longrightarrow>
     calculateCost tokenCount model = calculateCost tokenCount ''gpt-4''"
  by (simp add: calculateCost_def modelPricing_unknown_model)

lemma calculateCost_gpt4_1000: "calculateCost 1000 ''gpt-4'' = Num (39 / 1000)"
  by code_simp

text \<open>
  C5.  \<^verbatim>\<open>calculateCost(1000, 'gpt-4')\<close> is \<open>0.039\<close>, and a model name that is neither in the
  price table nor the name of an inherited property is priced as \<open>gpt-4\<close> (the lemmas
  above).  The fallback misses the names every object inherits: \<open>constructor\<close> is absent
  from the price table, yet \<^verbatim>\<open>pricing['constructor']\<close> is truthy, so the estimate is \<^verbatim>\<open>NaN\<close>
  and not the \<open>gpt-4\<close> value.
\<close>

theorem calculateCost_inherited_name:
  "''constructor'' \<notin> fst ` set pricing
   \<and> calculateCost 1000 ''constructor'' = NaN
   \<and> calculateCost 1000 ''gpt-4'' = Num (39 / 1000)
   \<and> calculateCost 1000 ''constructor'' \<noteq> calculateCost 1000 ''gpt-4''"
  by code_simp

section \<open>Plan gating\<close>

lemma userFeatures_outside:
  "p \<notin> {''basic'', ''pro'', ''enterprise''} \<Longrightarrow>
     userFeatures p = (if p \<in> set object_prototype_properties then None else Some [])"
  by (simp add: userFeatures_def get_property_def planFeatures_def)

lemma requireFeature_inherited_plan:
  "requireFeature ''seoOptimization''
      (Some \<lparr>user_id = ''u3'', email = ''g@h.i'', plan = ''constructor'',
             subscriptionStatus = ''active''\<rparr>)
     = Throws (TypeError ''userFeatures.includes is not a function'')"
  by (simp add: requireFeature_def userFeatures_def get_property_def planFeatures_def
                object_prototype_properties_def)

text \<open>
  C9. A user on plan \<open>basic\<close> passes \<^verbatim>\<open>requireFeature('bulkGeneration')\<close>: the middleware
  calls \<^verbatim>\<open>next()\<close>, although \<^verbatim>\<open>config.plans.basic.features.bulkGeneration\<close> is
  \<^verbatim>\<open>false\<close>.  A user whose plan is none of \<open>basic\<close>, \<open>pro\<close>, \<open>enterprise\<close> is never handed
  on, whatever the feature; unless the plan string names a property inherited from
  \<^verbatim>\<open>Object.prototype\<close> (then the middleware throws), the answer is 403 with code
  \<open>FEATURE_NOT_AVAILABLE\<close>.
\<close>

theorem requireFeature_plan_gate:
  "(plan u = ''basic'' \<longrightarrow> requireFeature ''bulkGeneration'' (Some u) = Next)
   \<and> plan_feature_flag ''basic'' ''bulkGeneration'' = Some (JBool False)
   \<and> (plan u \<notin> {''basic'', ''pro'', ''enterprise''} \<longrightarrow>
        requireFeature feature (Some u) \<noteq> Next
        \<and> (plan u \<notin> set object_prototype_properties \<longrightarrow>
             (\<exists>body. requireFeature feature (Some u) = Respond 403 body
                \<and> map_of body ''code'' = Some (JStr ''FEATURE_NOT_AVAILABLE''))))"
proof (intro conjI impI)
  assume "plan u = ''basic''"
  then show "requireFeature ''bulkGeneration'' (Some u) = Next"
    by (simp add: requireFeature_def userFeatures_def get_property_def planFeatures_def)
next
  show "plan_feature_flag ''basic'' ''bulkGeneration'' = Some (JBool False)"
    by (simp add: plan_feature_flag_def config_plans_def)
next
  assume out: "plan u \<notin> {''basic'', ''pro'', ''enterprise''}"
  show "requireFeature feature (Some u) \<noteq> Next"
    using userFeatures_outside [OF out] by (simp add: requireFeature_def)
next
  assume out: "plan u \<notin> {''basic'', ''pro'', ''enterprise''}"
    and np: "plan u \<notin> set object_prototype_properties"
  show "\<exists>body. requireFeature feature (Some u) = Respond 403 body
                \<and> map_of body ''code'' = Some (JStr ''FEATURE_NOT_AVAILABLE'')"
    using userFeatures_outside [OF out] np by (simp add: requireFeature_def)
qed

theorem requireFeature_plan_gate_witness:
  "requireFeature ''bulkGeneration''
      (Some \<lparr>user_id = ''u1'', email = ''a@b.c'', plan = ''basic'',
             subscriptionStatus = ''active''\<rparr>) = Next
   \<and> requireFeature ''seoOptimization''
      (Some \<lparr>user_id = ''u2'', email = ''d@e.f'', plan = ''trial'',
             subscriptionStatus = ''active''\<rparr>) \<noteq> Next
   \<and> (\<exists>body. requireFeature ''seoOptimization''
      (Some \<lparr>user_id = ''u2'', email = ''d@e.f'', plan = ''trial'',
             subscriptionStatus = ''active''\<rparr>) = Respond 403 body
       \<and> map_of body ''code'' = Some (JStr ''FEATURE_NOT_AVAILABLE''))"
  using requireFeature_plan_gate
          [of "\<lparr>user_id = ''u1'', email = ''a@b.c'', plan = ''basic'',
                subscriptionStatus = ''active''\<rparr>"]
        requireFeature_plan_gate
          [of "\<lparr>user_id = ''u2'', email = ''d@e.f'', plan = ''trial'',
                subscriptionStatus = ''active''\<rparr>" "''seoOptimization''"]
  by (simp add: object_prototype_properties_def)

section \<open>Rate limiting fails open\<close>

lemma redisKey_example: "redisKey 1700000000123 ''user:7'' 60 = ''user:7:28333333''"
  by (simp add: redisKey_def window_text_def show_int_def show_nat.simps)

lemma rateLimiter_check_over_limit:
  "rateLimiter_check \<lparr>incr = (\<lambda>k. Inr 3), expire = (\<lambda>k t. Inr True)\<rparr>
     1700000000123 ''user:7'' 2 60 = False"
  by (simp add: rateLimiter_check_def)

text \<open>
  C10. Whenever the Redis \<^verbatim>\<open>INCR\<close> on the window key throws, \<^verbatim>\<open>rateLimiter.check\<close> returns
  \<^verbatim>\<open>true\<close>, for every key, limit and window length: the limiter lets the request through.
\<close>

theorem rateLimiter_check_fails_open:
  "incr redis (redisKey nowMs key windowSeconds) = Inl err \<Longrightarrow>
     rateLimiter_check redis nowMs key limit windowSeconds = True"
  by (simp add: rateLimiter_check_def)

theorem rateLimiter_check_fails_open_witness:
  "incr \<lparr>incr = (\<lambda>k. Inl ''ECONNREFUSED''), expire = (\<lambda>k t. Inr True)\<rparr>
        (redisKey 1700000000123 ''user:7'' 60) = Inl ''ECONNREFUSED''
   \<and> rateLimiter_check \<lparr>incr = (\<lambda>k. Inl ''ECONNREFUSED''), expire = (\<lambda>k t. Inr True)\<rparr>
        1700000000123 ''user:7'' 0 60 = True"
  using rateLimiter_check_fails_open
          [of "\<lparr>incr = (\<lambda>k. Inl ''ECONNREFUSED''), expire = (\<lambda>k t. Inr True)\<rparr>"
              1700000000123 "''user:7''" 60 "''ECONNREFUSED''" 0]
  by simp

section \<open>Properties of the error handler\<close>
















section \<open>Properties of webhook verification\<close>

text \<open>A payload that passes verification reaches the body of its route.\<close>

lemma accepted_stripe_webhook:
  assumes "constructEvent payload signature webhookSecret = Inr event"
  shows "stripe_webhook constructEvent webhookSecret handler payload signature w
           = (Processed, run_body handler event w)"
  using assms by (simp add: stripe_webhook_def stripe_verifyWebhook_def)

lemma accepted_shopify_webhook:
  assumes "hmac secret rawBody = Inr signature"
  shows "shopify_webhook hmac secret parse handler rawBody signature w
           = (Processed, run_body handler (parse rawBody) w)"
  using assms by (simp add: shopify_webhook_def shopify_verifyWebhook_def)

text \<open>What a body does with an accepted event: it reads fields and changes the mirror.\<close>

lemma sample_body_runs:
  "run_body sample_body sample_event sample_world
     = \<lparr>mirror = [(JStr ''cus_1'', JStr ''pro''), (JStr ''cus_1'', JStr ''basic'')],
        fields_read = [''customer'', ''plan''], log_lines = []\<rparr>"
  by (simp add: sample_body_def sample_event_def sample_world_def event_field_def)

text \<open>
  C7. For every payload and signature whose verification fails, the call is rejected,
  the mirror is left as it was, and no field of the payload is read.

  For the billing platform, failure is the library throwing: \<^verbatim>\<open>stripeService.verifyWebhook\<close>
  returns \<^verbatim>\<open>null\<close>, and all it does is log the library's error.  For the store platform,
  failure is a digest that differs from the signature, or computing it throwing:
  \<^verbatim>\<open>shopifyService.verifyWebhook\<close> returns \<^verbatim>\<open>false\<close>, and all it does is log the error if
  there was one.  In both cases the route answers with a rejection and the world after the
  call is the one the verification function left: same mirror, same fields read, whatever
  the body of the route would have done with an accepted payload.
\<close>

theorem failed_verification_rejects:
  "(constructEvent payload signature webhookSecret = Inl err \<longrightarrow>
      stripe_verifyWebhook constructEvent webhookSecret payload signature w
        = (None, logger_error ''Failed to verify Stripe webhook:'' err w)
      \<and> stripe_webhook constructEvent webhookSecret handler payload signature w
        = (Rejected, logger_error ''Failed to verify Stripe webhook:'' err w)
      \<and> mirror (snd (stripe_webhook constructEvent webhookSecret handler payload signature w))
        = mirror w
      \<and> fields_read (snd (stripe_webhook constructEvent webhookSecret handler payload signature w))
        = fields_read w)
   \<and> (hmac secret rawBody \<noteq> Inr signature' \<longrightarrow>
      shopify_verifyWebhook hmac rawBody signature' secret w
        = (False, case hmac secret rawBody of
                    Inl err' \<Rightarrow> logger_error ''Failed to verify webhook signature:'' err' w
                  | Inr hash \<Rightarrow> w)
      \<and> shopify_webhook hmac secret parse handler' rawBody signature' w
        = (Rejected, snd (shopify_verifyWebhook hmac rawBody signature' secret w))
      \<and> mirror (snd (shopify_webhook hmac secret parse handler' rawBody signature' w)) = mirror w
      \<and> fields_read (snd (shopify_webhook hmac secret parse handler' rawBody signature' w))
        = fields_read w)"
proof (intro conjI impI)
  assume failed: "constructEvent payload signature webhookSecret = Inl err"
  then show verify: "stripe_verifyWebhook constructEvent webhookSecret payload signature w
      = (None, logger_error ''Failed to verify Stripe webhook:'' err w)"
    by (simp add: stripe_verifyWebhook_def)
  then show route: "stripe_webhook constructEvent webhookSecret handler payload signature w
      = (Rejected, logger_error ''Failed to verify Stripe webhook:'' err w)"
    by (simp add: stripe_webhook_def)
  from route show "mirror (snd (stripe_webhook constructEvent webhookSecret handler payload signature w))
      = mirror w"
    by (simp add: logger_error_def)
  from route show "fields_read (snd (stripe_webhook constructEvent webhookSecret handler payload signature w))
      = fields_read w"
    by (simp add: logger_error_def)
next
  assume failed: "hmac secret rawBody \<noteq> Inr signature'"
  then show verify: "shopify_verifyWebhook hmac rawBody signature' secret w
      = (False, case hmac secret rawBody of
                  Inl err' \<Rightarrow> logger_error ''Failed to verify webhook signature:'' err' w
                | Inr hash \<Rightarrow> w)"
    by (auto simp: shopify_verifyWebhook_def split: sum.splits)
  then show route: "shopify_webhook hmac secret parse handler' rawBody signature' w
      = (Rejected, snd (shopify_verifyWebhook hmac rawBody signature' secret w))"
    by (simp add: shopify_webhook_def)
  from route verify
  show "mirror (snd (shopify_webhook hmac secret parse handler' rawBody signature' w)) = mirror w"
    by (simp add: logger_error_def split: sum.splits)
  from route verify
  show "fields_read (snd (shopify_webhook hmac secret parse handler' rawBody signature' w))
      = fields_read w"
    by (simp add: logger_error_def split: sum.splits)
qed

text \<open>
  A forged signature on either route: the call is rejected, nothing is read and the mirror
  keeps the plan it had, where the same payload with the good signature is processed.
\<close>

theorem failed_verification_rejects_witness:
  "stripe_webhook sample_constructEvent ''whsec_1'' sample_body ''{...}'' ''t=1,v1=forged''
       sample_world
     = (Rejected,
        \<lparr>mirror = [(JStr ''cus_1'', JStr ''basic'')], fields_read = [],
         log_lines = [(''Failed to verify Stripe webhook:'', ''No signatures found'')]\<rparr>)
   \<and> shopify_webhook sample_hmac ''shpss_1'' (\<lambda>rawBody. sample_event) sample_body ''{...}''
       ''forged'' sample_world
     = (Rejected,
        \<lparr>mirror = [(JStr ''cus_1'', JStr ''basic'')], fields_read = [], log_lines = []\<rparr>)
   \<and> stripe_webhook sample_constructEvent ''whsec_1'' sample_body ''{...}'' ''t=1,v1=good''
       sample_world
     = (Processed,
        \<lparr>mirror = [(JStr ''cus_1'', JStr ''pro''), (JStr ''cus_1'', JStr ''basic'')],
         fields_read = [''customer'', ''plan''], log_lines = []\<rparr>)"
proof -
  have a: "sample_constructEvent ''{...}'' ''t=1,v1=forged'' ''whsec_1'' = Inl ''No signatures found''"
    by (simp add: sample_constructEvent_def)
  have b: "sample_hmac ''shpss_1'' ''{...}'' \<noteq> Inr ''forged''"
    by (simp add: sample_hmac_def)
  have c: "sample_hmac ''shpss_1'' ''{...}'' = Inr ''shpss_1{...}''"
    by (simp add: sample_hmac_def)
  note claim = failed_verification_rejects
         [where constructEvent = sample_constructEvent and payload = "''{...}''"
            and signature = "''t=1,v1=forged''" and webhookSecret = "''whsec_1''"
            and err = "''No signatures found''" and w = sample_world and hmac = sample_hmac
            and secret = "''shpss_1''" and rawBody = "''{...}''"
            and signature' = "''forged''" and handler = sample_body and handler' = sample_body
            and parse = "\<lambda>rawBody. sample_event"]
  from claim a
  have stripe: "stripe_webhook sample_constructEvent ''whsec_1'' sample_body ''{...}''
                  ''t=1,v1=forged'' sample_world
                = (Rejected, logger_error ''Failed to verify Stripe webhook:''
                               ''No signatures found'' sample_world)"
    by blast
  from claim b
  have "shopify_webhook sample_hmac ''shpss_1'' (\<lambda>rawBody. sample_event) sample_body ''{...}''
          ''forged'' sample_world
        = (Rejected, snd (shopify_verifyWebhook sample_hmac ''{...}'' ''forged'' ''shpss_1''
                            sample_world))"
    and "shopify_verifyWebhook sample_hmac ''{...}'' ''forged'' ''shpss_1'' sample_world
        = (False, case sample_hmac ''shpss_1'' ''{...}'' of
                    Inl err' \<Rightarrow> logger_error ''Failed to verify webhook signature:'' err' sample_world
                  | Inr hash \<Rightarrow> sample_world)"
    by blast+
  with c
  have shopify: "shopify_webhook sample_hmac ''shpss_1'' (\<lambda>rawBody. sample_event) sample_body
                   ''{...}'' ''forged'' sample_world
                 = (Rejected, sample_world)"
    by simp
  have good: "sample_constructEvent ''{...}'' ''t=1,v1=good'' ''whsec_1'' = Inr sample_event"
    by (simp add: sample_constructEvent_def)
  have accepted: "stripe_webhook sample_constructEvent ''whsec_1'' sample_body ''{...}''
                    ''t=1,v1=good'' sample_world
                  = (Processed, run_body sample_body sample_event sample_world)"
    using good by (rule accepted_stripe_webhook)
  show ?thesis
    unfolding stripe shopify accepted sample_body_runs
    by (simp add: logger_error_def sample_world_def)
qed

end
